theory Spec2Isabelle
  imports Main "HOL-Library.Sublist"
begin

section \<open>Values, runtimes and errors\<close>

text \<open>
  The module \<^verbatim>\<open>_cpcompat.py\<close> runs on two Python runtimes. \<^verbatim>\<open>six.PY3\<close> tells them
  apart: on Python 3 the native string type \<^verbatim>\<open>str\<close> is a sequence of code points, on
  Python 2 \<^verbatim>\<open>str\<close> is a byte string and a string of code points has the type \<^verbatim>\<open>unicode\<close>.

  A string of code points is the list of its code points, a byte string a list of 8-bit characters.
  \<open>IntV\<close> is an object of type \<^verbatim>\<open>int\<close>, \<open>NoneV\<close> is \<^verbatim>\<open>None\<close>, and \<open>ObjV c\<close> is an
  object of any other class, of which only the class name \<open>c\<close> is kept. No value is an
  instance of a subclass of \<^verbatim>\<open>str\<close>, \<^verbatim>\<open>bytes\<close> or \<^verbatim>\<open>unicode\<close>.
\<close>

type_synonym unicode = "nat list"
type_synonym bytes = "char list"

datatype pyval = TextV unicode | BytesV bytes | IntV int | NoneV | ObjV string

datatype runtime = PY2 | PY3

datatype error =
    TypeError string
  | ValueError string
  | LookupError string
  | AttributeError string
  | UnicodeEncodeError
  | UnicodeDecodeError
  | BinasciiError

text \<open>A string literal of the source, written with ASCII characters.\<close>

definition lit :: "string \<Rightarrow> unicode" where
  "lit s = map of_char s"

text \<open>\<^verbatim>\<open>type(n).__name__\<close>\<close>

fun type_name :: "runtime \<Rightarrow> pyval \<Rightarrow> string" where
  "type_name PY3 (TextV t) = ''str''"
| "type_name PY3 (BytesV b) = ''bytes''"
| "type_name PY2 (TextV t) = ''unicode''"
| "type_name PY2 (BytesV b) = ''str''"
| "type_name rt (IntV i) = ''int''"
| "type_name rt NoneV = ''NoneType''"
| "type_name rt (ObjV c) = c"

text \<open>\<^verbatim>\<open>isinstance(n, str)\<close>, \<^verbatim>\<open>isinstance(n, bytes)\<close> (Python 3),
  \<^verbatim>\<open>isinstance(n, unicode)\<close> (Python 2) and \<^verbatim>\<open>isinstance(n, six.text_type)\<close>.\<close>

fun isinstance_str :: "runtime \<Rightarrow> pyval \<Rightarrow> bool" where
  "isinstance_str PY3 (TextV t) = True"
| "isinstance_str PY2 (BytesV b) = True"
| "isinstance_str rt n = False"

fun isinstance_bytes :: "pyval \<Rightarrow> bool" where
  "isinstance_bytes (BytesV b) = True"
| "isinstance_bytes n = False"

fun isinstance_unicode :: "pyval \<Rightarrow> bool" where
  "isinstance_unicode (TextV t) = True"
| "isinstance_unicode n = False"

definition isinstance_text_type :: "pyval \<Rightarrow> bool" where
  "isinstance_text_type n = isinstance_unicode n"

text \<open>Sequencing of a computation that may raise.\<close>

definition and_then :: "error + 'a \<Rightarrow> ('a \<Rightarrow> error + 'b) \<Rightarrow> error + 'b" where
  "and_then m f = (case m of Inl e \<Rightarrow> Inl e | Inr x \<Rightarrow> f x)"

definition emit :: "'a \<Rightarrow> error + 'a list \<Rightarrow> error + 'a list" where
  "emit x m = (case m of Inl e \<Rightarrow> Inl e | Inr xs \<Rightarrow> Inr (x # xs))"

section \<open>The codecs of the runtime\<close>

text \<open>
  \<^verbatim>\<open>n.encode(encoding)\<close> and \<^verbatim>\<open>b.decode(encoding, errors)\<close> look the codec up by name.
  The registry of this model holds the three codecs the sources name (ISO-8859-1, the
  default of every function; UTF-8, of \<^verbatim>\<open>json_encode\<close>; ASCII, of \<^verbatim>\<open>random20\<close>) under
  their usual aliases; any other name is the name of no codec and raises
  \<^verbatim>\<open>LookupError\<close>. The error handlers are \<^verbatim>\<open>strict\<close>, \<^verbatim>\<open>ignore\<close> and
  \<^verbatim>\<open>replace\<close>; a handler is looked up when the first error occurs. The codecs are
  those of Python 3, on both runtimes: the UTF-8 codec of Python 2, which also reads and
  writes surrogates, is not modelled. Where the result of a function on Python 2 is the
  result of that runtime's decoder on arbitrary bytes (\<^verbatim>\<open>unquote_qs\<close>), the decoder is a
  parameter of the function instead.
\<close>

datatype codec = Latin1 | Ascii | Utf8

definition lower_char :: "char \<Rightarrow> char" where
  "lower_char c =
     (if (65::nat) \<le> of_char c \<and> (of_char c :: nat) \<le> 90 then char_of (of_char c + (32::nat)) else c)"

definition normalize_encoding :: "string \<Rightarrow> string" where
  "normalize_encoding e =
     map (\<lambda>c. if c = CHR ''-'' \<or> c = CHR '' '' then CHR ''_'' else lower_char c) e"

definition lookup_codec :: "string \<Rightarrow> codec option" where
  "lookup_codec e =
     (let n = normalize_encoding e in
      if n \<in> set [''iso_8859_1'', ''iso8859_1'', ''latin_1'', ''latin1'', ''l1''] then Some Latin1
      else if n \<in> set [''ascii'', ''us_ascii'', ''646''] then Some Ascii
      else if n \<in> set [''utf_8'', ''utf8'', ''u8'', ''utf''] then Some Utf8
      else None)"

definition unknown_encoding :: "string \<Rightarrow> error" where
  "unknown_encoding e = LookupError (''unknown encoding: '' @ e)"

text \<open>What happens at an undecodable range of bytes, given the rest of the result.\<close>

definition on_decode_error :: "string \<Rightarrow> error + unicode \<Rightarrow> error + unicode" where
  "on_decode_error errors rest =
     (if errors = ''strict'' then Inl UnicodeDecodeError
      else if errors = ''ignore'' then rest
      else if errors = ''replace'' then emit 0xFFFD rest
      else Inl (LookupError (''unknown error handler name '' @ errors)))"

subsection \<open>ISO-8859-1 and ASCII\<close>

definition latin1_decode :: "bytes \<Rightarrow> unicode" where
  "latin1_decode b = map of_char b"

fun latin1_encode :: "unicode \<Rightarrow> error + bytes" where
  "latin1_encode [] = Inr []"
| "latin1_encode (c # cs) =
     (if c < 256 then emit (char_of c) (latin1_encode cs) else Inl UnicodeEncodeError)"

fun ascii_decode :: "string \<Rightarrow> bytes \<Rightarrow> error + unicode" where
  "ascii_decode errors [] = Inr []"
| "ascii_decode errors (c # cs) =
     (if (of_char c :: nat) < 128 then emit (of_char c) (ascii_decode errors cs)
      else on_decode_error errors (ascii_decode errors cs))"

fun ascii_encode :: "unicode \<Rightarrow> error + bytes" where
  "ascii_encode [] = Inr []"
| "ascii_encode (c # cs) =
     (if c < 128 then emit (char_of c) (ascii_encode cs) else Inl UnicodeEncodeError)"

subsection \<open>UTF-8\<close>

definition is_cont :: "nat \<Rightarrow> bool" where
  "is_cont b = (128 \<le> b \<and> b < 192)"

text \<open>The second byte of a three-byte and of a four-byte sequence: no overlong form, no
  surrogate, nothing above U+10FFFF.\<close>

definition second3_ok :: "nat \<Rightarrow> nat \<Rightarrow> bool" where
  "second3_ok b0 b1 =
     (is_cont b1 \<and> \<not> (if b1 < 160 then b0 = 224 else b0 = 237))"

definition second4_ok :: "nat \<Rightarrow> nat \<Rightarrow> bool" where
  "second4_ok b0 b1 =
     (is_cont b1 \<and> \<not> (if b1 < 144 then b0 = 240 else b0 = 244))"

fun utf8_encode_cp :: "nat \<Rightarrow> bytes option" where
  "utf8_encode_cp c =
     (if c < 128 then Some [char_of c]
      else if c < 2048 then Some [char_of (192 + c div 64), char_of (128 + c mod 64)]
      else if c < 65536 then
        (if 55296 \<le> c \<and> c < 57344 then None
         else Some [char_of (224 + c div 4096), char_of (128 + c div 64 mod 64),
                    char_of (128 + c mod 64)])
      else if c < 1114112 then
        Some [char_of (240 + c div 262144), char_of (128 + c div 4096 mod 64),
              char_of (128 + c div 64 mod 64), char_of (128 + c mod 64)]
      else None)"

fun utf8_encode :: "unicode \<Rightarrow> error + bytes" where
  "utf8_encode [] = Inr []"
| "utf8_encode (c # cs) =
     (case utf8_encode_cp c of
        None \<Rightarrow> Inl UnicodeEncodeError
      | Some b \<Rightarrow> (case utf8_encode cs of Inl e \<Rightarrow> Inl e | Inr bs \<Rightarrow> Inr (b @ bs)))"

text \<open>
  The decoder reads one sequence at a time. An invalid start byte is an error of one
  byte; an invalid continuation byte ends the error before that byte, where decoding
  resumes; a sequence cut off by the end of the input is one error up to the end.
\<close>

fun utf8_decode :: "string \<Rightarrow> bytes \<Rightarrow> error + unicode" where
  "utf8_decode errors [] = Inr []"
| "utf8_decode errors (c0 # r0) =
     (let b0 = (of_char c0 :: nat) in
      if b0 < 128 then emit b0 (utf8_decode errors r0)
      else if b0 < 194 then on_decode_error errors (utf8_decode errors r0)
      else if b0 < 224 then
        (case r0 of
           [] \<Rightarrow> on_decode_error errors (Inr [])
         | c1 # r1 \<Rightarrow>
             if is_cont (of_char c1)
             then emit ((b0 - 192) * 64 + (of_char c1 - 128)) (utf8_decode errors r1)
             else on_decode_error errors (utf8_decode errors r0))
      else if b0 < 240 then
        (case r0 of
           [] \<Rightarrow> on_decode_error errors (Inr [])
         | c1 # r1 \<Rightarrow>
             if \<not> second3_ok b0 (of_char c1)
             then on_decode_error errors (utf8_decode errors r0)
             else (case r1 of
                [] \<Rightarrow> on_decode_error errors (Inr [])
              | c2 # r2 \<Rightarrow>
                  if is_cont (of_char c2)
                  then emit ((b0 - 224) * 4096 + (of_char c1 - 128) * 64 + (of_char c2 - 128))
                         (utf8_decode errors r2)
                  else on_decode_error errors (utf8_decode errors r1)))
      else if b0 < 245 then
        (case r0 of
           [] \<Rightarrow> on_decode_error errors (Inr [])
         | c1 # r1 \<Rightarrow>
             if \<not> second4_ok b0 (of_char c1)
             then on_decode_error errors (utf8_decode errors r0)
             else (case r1 of
                [] \<Rightarrow> on_decode_error errors (Inr [])
              | c2 # r2 \<Rightarrow>
                  if \<not> is_cont (of_char c2)
                  then on_decode_error errors (utf8_decode errors r1)
                  else (case r2 of
                     [] \<Rightarrow> on_decode_error errors (Inr [])
                   | c3 # r3 \<Rightarrow>
                       if is_cont (of_char c3)
                       then emit ((b0 - 240) * 262144 + (of_char c1 - 128) * 4096
                                  + (of_char c2 - 128) * 64 + (of_char c3 - 128))
                              (utf8_decode errors r3)
                       else on_decode_error errors (utf8_decode errors r2))))
      else on_decode_error errors (utf8_decode errors r0))"

subsection \<open>The methods \<^verbatim>\<open>encode\<close> and \<^verbatim>\<open>decode\<close>\<close>

definition str_encode :: "string \<Rightarrow> unicode \<Rightarrow> error + bytes" where
  "str_encode encoding t =
     (case lookup_codec encoding of
        None \<Rightarrow> Inl (unknown_encoding encoding)
      | Some Latin1 \<Rightarrow> latin1_encode t
      | Some Ascii \<Rightarrow> ascii_encode t
      | Some Utf8 \<Rightarrow> utf8_encode t)"

definition bytes_decode :: "string \<Rightarrow> string \<Rightarrow> bytes \<Rightarrow> error + unicode" where
  "bytes_decode encoding errors b =
     (case lookup_codec encoding of
        None \<Rightarrow> Inl (unknown_encoding encoding)
      | Some Latin1 \<Rightarrow> Inr (latin1_decode b)
      | Some Ascii \<Rightarrow> ascii_decode errors b
      | Some Utf8 \<Rightarrow> utf8_decode errors b)"

text \<open>
  The method calls of the sources on a value. Python 2 lets a byte string be encoded and
  a \<^verbatim>\<open>unicode\<close> be decoded, through the default encoding ASCII; a value of another
  type has neither method.
\<close>

definition no_attribute :: "runtime \<Rightarrow> pyval \<Rightarrow> string \<Rightarrow> error" where
  "no_attribute rt n a =
     AttributeError ([CHR 0x27] @ type_name rt n @ [CHR 0x27] @ '' object has no attribute ''
                     @ [CHR 0x27] @ a @ [CHR 0x27])"

fun meth_encode :: "runtime \<Rightarrow> pyval \<Rightarrow> string \<Rightarrow> error + pyval" where
  "meth_encode rt (TextV t) encoding = and_then (str_encode encoding t) (\<lambda>b. Inr (BytesV b))"
| "meth_encode PY2 (BytesV b) encoding =
     and_then (ascii_decode ''strict'' b) (\<lambda>t.
     and_then (str_encode encoding t) (\<lambda>b'. Inr (BytesV b')))"
| "meth_encode rt n encoding = Inl (no_attribute rt n ''encode'')"

fun meth_decode :: "runtime \<Rightarrow> pyval \<Rightarrow> string \<Rightarrow> string \<Rightarrow> error + pyval" where
  "meth_decode rt (BytesV b) encoding errors =
     and_then (bytes_decode encoding errors b) (\<lambda>t. Inr (TextV t))"
| "meth_decode PY2 (TextV t) encoding errors =
     and_then (ascii_encode t) (\<lambda>b.
     and_then (bytes_decode encoding errors b) (\<lambda>t'. Inr (TextV t')))"
| "meth_decode rt n encoding errors = Inl (no_attribute rt n ''decode'')"

section \<open>The text conversion family\<close>

text \<open>
  \<^verbatim>\<open>
  def assert_native(n):
      if not isinstance(n, str):
          raise TypeError("n must be a native str (got %s)" % type(n).__name__)
  \<close>
\<close>

definition assert_native :: "runtime \<Rightarrow> pyval \<Rightarrow> error + unit" where
  "assert_native rt n =
     (if \<not> isinstance_str rt n
      then Inl (TypeError (''n must be a native str (got '' @ type_name rt n @ '')''))
      else Inr ())"

text \<open>
  The test encoding \<^verbatim>\<open>escape\<close> of Python 2:
  \<^verbatim>\<open>re.sub(r'\\u([0-9a-zA-Z]{4})', lambda m: unichr(int(m.group(1), 16)), ...)\<close>.
  \<^verbatim>\<open>int(s, 16)\<close> reads four hexadecimal digits, or two after the prefix
  \<^verbatim>\<open>0x\<close>, and raises \<^verbatim>\<open>ValueError\<close> on any other four letters and digits.
\<close>

definition is_alnum :: "nat \<Rightarrow> bool" where
  "is_alnum c = ((48 \<le> c \<and> c \<le> 57) \<or> (65 \<le> c \<and> c \<le> 90) \<or> (97 \<le> c \<and> c \<le> 122))"

definition hex_val :: "nat \<Rightarrow> nat option" where
  "hex_val c =
     (if 48 \<le> c \<and> c \<le> 57 then Some (c - 48)
      else if 65 \<le> c \<and> c \<le> 70 then Some (c - 55)
      else if 97 \<le> c \<and> c \<le> 102 then Some (c - 87)
      else None)"

definition int16 :: "nat \<Rightarrow> nat \<Rightarrow> nat \<Rightarrow> nat \<Rightarrow> nat option" where
  "int16 a b c d =
     (case (hex_val a, hex_val b, hex_val c, hex_val d) of
        (Some w, Some x, Some y, Some z) \<Rightarrow> Some (((w * 16 + x) * 16 + y) * 16 + z)
      | (Some w, None, Some y, Some z) \<Rightarrow>
          if a = 48 \<and> (b = 120 \<or> b = 88) then Some (y * 16 + z) else None
      | _ \<Rightarrow> None)"

fun escape_sub :: "unicode \<Rightarrow> error + unicode" where
  "escape_sub (s # u # a # b # c # d # rest) =
     (if s = 92 \<and> u = 117 \<and> is_alnum a \<and> is_alnum b \<and> is_alnum c \<and> is_alnum d
      then (case int16 a b c d of
              None \<Rightarrow> Inl (ValueError ''invalid literal for int() with base 16'')
            | Some v \<Rightarrow> emit v (escape_sub rest))
      else emit s (escape_sub (u # a # b # c # d # rest)))"
| "escape_sub (s # rest) = emit s (escape_sub rest)"
| "escape_sub [] = Inr []"

text \<open>\<^verbatim>\<open>ntob\<close>, \<^verbatim>\<open>ntou\<close> and \<^verbatim>\<open>tonative\<close>, each in its two definitions under
  \<^verbatim>\<open>if six.PY3: ... else: ...\<close>.\<close>

definition ntob :: "runtime \<Rightarrow> pyval \<Rightarrow> string \<Rightarrow> error + pyval" where
  "ntob rt n encoding =
     and_then (assert_native rt n) (\<lambda>_.
       case rt of PY3 \<Rightarrow> meth_encode rt n encoding | PY2 \<Rightarrow> Inr n)"

definition ntou :: "runtime \<Rightarrow> pyval \<Rightarrow> string \<Rightarrow> error + pyval" where
  "ntou rt n encoding =
     and_then (assert_native rt n) (\<lambda>_.
       case rt of
         PY3 \<Rightarrow> Inr n
       | PY2 \<Rightarrow>
           if encoding = ''escape''
           then and_then (meth_decode rt n ''ISO-8859-1'' ''strict'') (\<lambda>d.
                  case d of
                    TextV t \<Rightarrow> and_then (escape_sub t) (\<lambda>t'. Inr (TextV t'))
                  | _ \<Rightarrow> Inl (TypeError ''expected string or buffer''))
           else meth_decode rt n encoding ''strict'')"

definition tonative :: "runtime \<Rightarrow> pyval \<Rightarrow> string \<Rightarrow> error + pyval" where
  "tonative rt n encoding =
     (case rt of
        PY3 \<Rightarrow> if isinstance_bytes n then meth_decode rt n encoding ''strict'' else Inr n
      | PY2 \<Rightarrow> if isinstance_unicode n then meth_encode rt n encoding else Inr n)"

section \<open>Base64\<close>

text \<open>
  \<^verbatim>\<open>_base64_decodebytes\<close> is whichever of \<^verbatim>\<open>base64.decodebytes\<close> and
  \<^verbatim>\<open>base64.decodestring\<close> the runtime has; both hand a byte string to the runtime's
  \<^verbatim>\<open>binascii.a2b_base64\<close> and raise \<^verbatim>\<open>TypeError\<close> on a value of another type. The
  primitive is a parameter \<open>a2b\<close> of the model.
\<close>

definition base64_decodebytes :: "runtime \<Rightarrow> (bytes \<Rightarrow> error + bytes) \<Rightarrow> pyval \<Rightarrow> error + pyval" where
  "base64_decodebytes rt a2b b =
     (case b of
        BytesV s \<Rightarrow> and_then (a2b s) (\<lambda>d. Inr (BytesV d))
      | _ \<Rightarrow> Inl (TypeError (''expected bytes-like object, not '' @ type_name rt b)))"

text \<open>
  \<^verbatim>\<open>
  def base64_decode(n, encoding='ISO-8859-1'):
      if isinstance(n, six.text_type):
          b = n.encode(encoding)
      else:
          b = n
      b = _base64_decodebytes(b)
      if str is six.text_type:
          return b.decode(encoding)
      else:
          return b
  \<close>
\<close>

definition str_is_text_type :: "runtime \<Rightarrow> bool" where
  "str_is_text_type rt = (rt = PY3)"

definition base64_decode ::
  "runtime \<Rightarrow> (bytes \<Rightarrow> error + bytes) \<Rightarrow> pyval \<Rightarrow> string \<Rightarrow> error + pyval" where
  "base64_decode rt a2b n encoding =
     and_then (if isinstance_text_type n then meth_encode rt n encoding else Inr n) (\<lambda>b.
     and_then (base64_decodebytes rt a2b b) (\<lambda>b'.
       if str_is_text_type rt then meth_decode rt b' encoding ''strict'' else Inr b'))"

text \<open>
  One such primitive, for examples: the decoder of CPython 3.11 in its default mode. It
  skips every character outside the alphabet, stops at the padding that completes a
  group of four, and raises when the input ends inside a group.
\<close>

definition b64_val :: "char \<Rightarrow> nat option" where
  "b64_val c =
     (let n = (of_char c :: nat) in
      if 65 \<le> n \<and> n \<le> 90 then Some (n - 65)
      else if 97 \<le> n \<and> n \<le> 122 then Some (n - 71)
      else if 48 \<le> n \<and> n \<le> 57 then Some (n + 4)
      else if n = 43 then Some 62
      else if n = 47 then Some 63
      else None)"

fun a2b_loop :: "nat \<Rightarrow> nat \<Rightarrow> nat \<Rightarrow> bytes \<Rightarrow> error + bytes" where
  "a2b_loop quad_pos leftchar pads [] = (if quad_pos \<noteq> 0 then Inl BinasciiError else Inr [])"
| "a2b_loop quad_pos leftchar pads (c # cs) =
     (if c = CHR ''='' then
        (if 2 \<le> quad_pos \<and> 4 \<le> quad_pos + (pads + 1) then Inr []
         else a2b_loop quad_pos leftchar (if 2 \<le> quad_pos then pads + 1 else pads) cs)
      else
        (case b64_val c of
           None \<Rightarrow> a2b_loop quad_pos leftchar pads cs
         | Some v \<Rightarrow>
             if quad_pos = 0 then a2b_loop 1 v 0 cs
             else if quad_pos = 1
               then emit (char_of (leftchar * 4 + v div 16)) (a2b_loop 2 (v mod 16) 0 cs)
             else if quad_pos = 2
               then emit (char_of (leftchar * 16 + v div 4)) (a2b_loop 3 (v mod 4) 0 cs)
             else emit (char_of (leftchar * 64 + v)) (a2b_loop 0 0 0 cs)))"

definition a2b_base64 :: "bytes \<Rightarrow> error + bytes" where
  "a2b_base64 s = a2b_loop 0 0 0 s"

section \<open>Query strings\<close>

text \<open>\<^verbatim>\<open>atom.replace('+', ' ')\<close>, on either string type.\<close>

definition replace_char :: "'a \<Rightarrow> 'a \<Rightarrow> 'a list \<Rightarrow> 'a list" where
  "replace_char old new s = map (\<lambda>c. if c = old then new else c) s"

text \<open>\<^verbatim>\<open>s.split('%')\<close>\<close>

fun split_on :: "'a \<Rightarrow> 'a list \<Rightarrow> 'a list list" where
  "split_on d [] = [[]]"
| "split_on d (x # xs) =
     (if x = d then [] # split_on d xs
      else (case split_on d xs of [] \<Rightarrow> [[x]] | y # ys \<Rightarrow> (x # y) # ys))"

text \<open>
  The table \<^verbatim>\<open>_hextobyte\<close> (\<^verbatim>\<open>_hextochr\<close> in Python 2) has one entry for each pair of
  hexadecimal digits, in either case.
\<close>

definition hextobyte :: "bytes \<Rightarrow> char option" where
  "hextobyte k =
     (case k of
        [a, b] \<Rightarrow>
          (case (hex_val (of_char a), hex_val (of_char b)) of
             (Some x, Some y) \<Rightarrow> Some (char_of (x * 16 + y))
           | _ \<Rightarrow> None)
      | _ \<Rightarrow> None)"

text \<open>
  The loop of \<^verbatim>\<open>urllib.parse.unquote_to_bytes\<close>, which is the loop of Python 2's
  \<^verbatim>\<open>urllib.unquote\<close> on a byte string:
  \<^verbatim>\<open>
  bits = s.split('%')
  if len(bits) == 1:
      return s
  res = [bits[0]]
  for item in bits[1:]:
      try:
          append(_hextochr[item[:2]])
          append(item[2:])
      except KeyError:
          append('%')
          append(item)
  return ''.join(res)
  \<close>
\<close>

fun unquote_items :: "bytes list \<Rightarrow> bytes" where
  "unquote_items [] = []"
| "unquote_items (item # items) =
     (case hextobyte (take 2 item) of
        Some c \<Rightarrow> c # drop 2 item
      | None \<Rightarrow> CHR ''%'' # item) @ unquote_items items"

definition unquote_to_bytes :: "bytes \<Rightarrow> bytes" where
  "unquote_to_bytes s =
     (case split_on CHR ''%'' s of
        [] \<Rightarrow> s
      | [b] \<Rightarrow> s
      | b # items \<Rightarrow> b @ unquote_items items)"

text \<open>
  \<^verbatim>\<open>urllib.parse.unquote(string, encoding, errors)\<close> of Python 3 returns a string
  without \<^verbatim>\<open>%\<close> as it is. Otherwise it unquotes and decodes each maximal run of ASCII
  characters and leaves the characters between the runs alone. \<open>unquote_runs\<close> keeps
  the run read so far in \<open>run\<close>.
\<close>

definition unquote_run :: "string \<Rightarrow> string \<Rightarrow> unicode \<Rightarrow> error + unicode" where
  "unquote_run encoding errors run =
     (if run = [] then Inr []
      else bytes_decode encoding errors (unquote_to_bytes (map char_of run)))"

fun unquote_runs :: "string \<Rightarrow> string \<Rightarrow> unicode \<Rightarrow> unicode \<Rightarrow> error + unicode" where
  "unquote_runs encoding errors run [] = unquote_run encoding errors run"
| "unquote_runs encoding errors run (c # cs) =
     (if c < 128 then unquote_runs encoding errors (run @ [c]) cs
      else and_then (unquote_run encoding errors run) (\<lambda>d.
           and_then (unquote_runs encoding errors [] cs) (\<lambda>r. Inr (d @ c # r))))"

definition parse_unquote_py3 :: "unicode \<Rightarrow> string \<Rightarrow> string \<Rightarrow> error + unicode" where
  "parse_unquote_py3 string encoding errors =
     (if 37 \<notin> set string then Inr string
      else unquote_runs encoding errors [] string)"

definition parse_unquote_py2 :: "bytes \<Rightarrow> bytes" where
  "parse_unquote_py2 s = unquote_to_bytes s"

text \<open>
  \<^verbatim>\<open>
  try:
      from urllib.parse import unquote as parse_unquote
      def unquote_qs(atom, encoding, errors='strict'):
          return parse_unquote(atom.replace('+', ' '), encoding=encoding, errors=errors)
  except ImportError:
      from urllib import unquote as parse_unquote
      def unquote_qs(atom, encoding, errors='strict'):
          return parse_unquote(atom.replace('+', ' ')).decode(encoding, errors)
  \<close>
  The atom is a native string: code points for the first definition, bytes for the second.
  The first definition is Python 3's and decodes with \<open>bytes_decode\<close>. The second is
  Python 2's, and \<^verbatim>\<open>.decode(encoding, errors)\<close> there is the method of Python 2's \<^verbatim>\<open>str\<close>,
  whose codecs are not those of Python 3: its UTF-8 decoder reads the bytes
  \<^verbatim>\<open>ED A0 80\<close> as the surrogate U+D800, which Python 3 refuses, and its registry holds
  codecs that Python 3 does not offer to \<^verbatim>\<open>bytes.decode\<close>, such as \<^verbatim>\<open>rot13\<close>. That method
  is the parameter \<open>decode\<close>, given the encoding, the error handler and the bytes.
\<close>

type_synonym decoder = "string \<Rightarrow> string \<Rightarrow> bytes \<Rightarrow> error + unicode"

definition unquote_qs_py3 :: "unicode \<Rightarrow> string \<Rightarrow> string \<Rightarrow> error + unicode" where
  "unquote_qs_py3 atom encoding errors =
     parse_unquote_py3 (replace_char 43 32 atom) encoding errors"

definition unquote_qs_py2 :: "decoder \<Rightarrow> bytes \<Rightarrow> string \<Rightarrow> string \<Rightarrow> error + unicode" where
  "unquote_qs_py2 decode atom encoding errors =
     decode encoding errors (parse_unquote_py2 (replace_char CHR ''+'' CHR '' '' atom))"

text \<open>
  The specification's reading of \<^verbatim>\<open>unquote_qs\<close>, for comparison: every \<^verbatim>\<open>+\<close> becomes
  a space, then every \<^verbatim>\<open>%\<close> followed by two hexadecimal digits becomes the byte they
  denote, then the bytes are decoded, by the decoder \<open>decode\<close> of the runtime.
\<close>

fun percent_decode :: "bytes \<Rightarrow> bytes" where
  "percent_decode (p # a # b # rest) =
     (if p = CHR ''%'' then
        (case hextobyte [a, b] of
           Some c \<Rightarrow> c # percent_decode rest
         | None \<Rightarrow> p # percent_decode (a # b # rest))
      else p # percent_decode (a # b # rest))"
| "percent_decode (p # rest) = p # percent_decode rest"
| "percent_decode [] = []"

definition spec_unquote_qs :: "decoder \<Rightarrow> bytes \<Rightarrow> string \<Rightarrow> string \<Rightarrow> error + unicode" where
  "spec_unquote_qs decode atom encoding errors =
     decode encoding errors (percent_decode (replace_char CHR ''+'' CHR '' '' atom))"

section \<open>JSON\<close>

text \<open>
  A generator is the list of the values it yields and the exception that ends it, if one
  does. A JSON library (\<^verbatim>\<open>simplejson\<close> or \<^verbatim>\<open>json\<close>) is a parameter of the model: its
  \<^verbatim>\<open>JSONDecoder().decode\<close> and its \<^verbatim>\<open>JSONEncoder().iterencode\<close>, over any type \<open>'v\<close>
  of values.
\<close>

type_synonym 'a gen = "'a list \<times> error option"

record 'v json_lib =
  lib_decode :: "pyval \<Rightarrow> error + 'v"
  lib_iterencode :: "'v \<Rightarrow> error + pyval gen"

text \<open>
  \<^verbatim>\<open>
  try:
      import simplejson as json
      json_decode = json.JSONDecoder().decode
      _json_encode = json.JSONEncoder().iterencode
  except ImportError:
      if sys.version_info >= (2, 6):
          import json
          json_decode = json.JSONDecoder().decode
          _json_encode = json.JSONEncoder().iterencode
      else:
          json = None
          def json_decode(s):
              raise ValueError('No JSON library is available')
          def _json_encode(s):
              raise ValueError('No JSON library is available')
  finally:
      if json and six.PY3:
          def json_encode(value):
              for chunk in _json_encode(value):
                  yield chunk.encode('utf8')
      else:
          json_encode = _json_encode
  \<close>
  \<open>import_json\<close> is the value of the name \<^verbatim>\<open>json\<close> after the \<^verbatim>\<open>try\<close> statement:
  \<open>simplejson\<close> is \<open>None\<close> when the import raises \<^verbatim>\<open>ImportError\<close>, and \<open>stdlib\<close> is
  the module \<^verbatim>\<open>json\<close> of a Python from 2.6 on.
\<close>

definition version_ge_2_6 :: "nat \<times> nat \<Rightarrow> bool" where
  "version_ge_2_6 v = (case v of (major, minor) \<Rightarrow> 2 < major \<or> (major = 2 \<and> 6 \<le> minor))"

definition import_json ::
  "'v json_lib option \<Rightarrow> nat \<times> nat \<Rightarrow> 'v json_lib \<Rightarrow> 'v json_lib option" where
  "import_json simplejson version_info stdlib =
     (case simplejson of
        Some l \<Rightarrow> Some l
      | None \<Rightarrow> if version_ge_2_6 version_info then Some stdlib else None)"

definition json_decode :: "'v json_lib option \<Rightarrow> pyval \<Rightarrow> error + 'v" where
  "json_decode json s =
     (case json of
        Some l \<Rightarrow> lib_decode l s
      | None \<Rightarrow> Inl (ValueError ''No JSON library is available''))"

definition priv_json_encode :: "'v json_lib option \<Rightarrow> 'v \<Rightarrow> error + pyval gen" where
  "priv_json_encode json s =
     (case json of
        Some l \<Rightarrow> lib_iterencode l s
      | None \<Rightarrow> Inl (ValueError ''No JSON library is available''))"

text \<open>The loop of the generator: it stops at the first chunk that cannot be encoded.\<close>

fun encode_chunks :: "runtime \<Rightarrow> pyval list \<Rightarrow> error option \<Rightarrow> pyval gen" where
  "encode_chunks rt [] fin = ([], fin)"
| "encode_chunks rt (chunk # chunks) fin =
     (case meth_encode rt chunk ''utf8'' of
        Inl e \<Rightarrow> ([], Some e)
      | Inr b \<Rightarrow> (case encode_chunks rt chunks fin of (ys, f) \<Rightarrow> (b # ys, f)))"

text \<open>
  Calling a generator function runs none of its body, so the first definition of
  \<^verbatim>\<open>json_encode\<close> always returns a generator, and the generator raises what the call of
  \<^verbatim>\<open>_json_encode\<close> raises.
\<close>

definition json_encode :: "runtime \<Rightarrow> 'v json_lib option \<Rightarrow> 'v \<Rightarrow> error + pyval gen" where
  "json_encode rt json v =
     (if json \<noteq> None \<and> rt = PY3
      then Inr (case priv_json_encode json v of
                  Inl e \<Rightarrow> ([], Some e)
                | Inr (chunks, fin) \<Rightarrow> encode_chunks rt chunks fin)
      else priv_json_encode json v)"

text \<open>\<^verbatim>\<open>b''.join(chunks)\<close>\<close>

fun join_bytes :: "pyval list \<Rightarrow> bytes option" where
  "join_bytes [] = Some []"
| "join_bytes (BytesV b # cs) = map_option (\<lambda>r. b @ r) (join_bytes cs)"
| "join_bytes (c # cs) = None"

subsection \<open>A small JSON library, for examples\<close>

text \<open>
  The library reads and writes \<^verbatim>\<open>null\<close>, the truth values, integers, strings, arrays
  and objects. Its encoder yields one chunk for each atom, bracket and separator and
  escapes the quotation mark, the backslash and the control characters only.
\<close>

datatype jvalue =
  JNull | JBool bool | JInt int | JStr unicode | JList "jvalue list" | JDict "(unicode \<times> jvalue) list"

fun digits10 :: "nat \<Rightarrow> unicode" where
  "digits10 n = (if n < 10 then [48 + n] else digits10 (n div 10) @ [48 + n mod 10])"

definition int_str :: "int \<Rightarrow> unicode" where
  "int_str i = (if i < 0 then 45 # digits10 (nat (- i)) else digits10 (nat i))"

definition hex_digit :: "nat \<Rightarrow> char" where
  "hex_digit n = ''0123456789abcdef'' ! (n mod 16)"

definition json_escape :: "nat \<Rightarrow> unicode" where
  "json_escape c =
     (if c = 34 \<or> c = 92 then [92, c]
      else if c < 32 then lit ([CHR 0x5C] @ ''u00'' @ [hex_digit (c div 16), hex_digit c])
      else [c])"

definition json_string :: "unicode \<Rightarrow> unicode" where
  "json_string s = [34] @ concat (map json_escape s) @ [34]"

fun is_atom :: "jvalue \<Rightarrow> bool" where
  "is_atom (JList l) = False"
| "is_atom (JDict d) = False"
| "is_atom v = True"

fun iter_value :: "jvalue \<Rightarrow> unicode list"
  and iter_list :: "bool \<Rightarrow> jvalue list \<Rightarrow> unicode list"
  and iter_dict :: "bool \<Rightarrow> (unicode \<times> jvalue) list \<Rightarrow> unicode list" where
  "iter_value JNull = [lit ''null'']"
| "iter_value (JBool b) = [lit (if b then ''true'' else ''false'')]"
| "iter_value (JInt i) = [int_str i]"
| "iter_value (JStr s) = [json_string s]"
| "iter_value (JList []) = [lit ''[]'']"
| "iter_value (JList (v # vs)) = iter_list True (v # vs)"
| "iter_value (JDict []) = [lit ''{}'']"
| "iter_value (JDict (kv # kvs)) = lit ''{'' # iter_dict True (kv # kvs)"
| "iter_list first [] = [lit '']'']"
| "iter_list first (v # vs) =
     (let buf = lit (if first then ''['' else '', '') in
      (if is_atom v then [buf @ concat (iter_value v)] else buf # iter_value v)
      @ iter_list False vs)"
| "iter_dict first [] = [lit ''}'']"
| "iter_dict first ((k, v) # kvs) =
     (if first then [] else [lit '', '']) @ [json_string k, lit '': ''] @ iter_value v
     @ iter_dict False kvs"

fun skip_ws :: "unicode \<Rightarrow> unicode" where
  "skip_ws [] = []"
| "skip_ws (c # cs) = (if c = 32 \<or> c = 9 \<or> c = 10 \<or> c = 13 then skip_ws cs else c # cs)"

fun parse_digits :: "nat \<Rightarrow> unicode \<Rightarrow> nat \<times> unicode" where
  "parse_digits acc [] = (acc, [])"
| "parse_digits acc (c # cs) =
     (if 48 \<le> c \<and> c \<le> 57 then parse_digits (acc * 10 + (c - 48)) cs else (acc, c # cs))"

definition parse_nat :: "unicode \<Rightarrow> (nat \<times> unicode) option" where
  "parse_nat s =
     (case s of
        [] \<Rightarrow> None
      | c # cs \<Rightarrow>
          if c = 48 then Some (0, cs)
          else if 49 \<le> c \<and> c \<le> 57 then Some (parse_digits 0 s)
          else None)"

definition parse_number :: "unicode \<Rightarrow> (jvalue \<times> unicode) option" where
  "parse_number s =
     (case s of
        [] \<Rightarrow> None
      | c # cs \<Rightarrow>
          if c = 45 then map_option (\<lambda>(n, r). (JInt (- int n), r)) (parse_nat cs)
          else map_option (\<lambda>(n, r). (JInt (int n), r)) (parse_nat s))"

fun parse_chars :: "unicode \<Rightarrow> (unicode \<times> unicode) option" where
  "parse_chars [] = None"
| "parse_chars (c # cs) =
     (if c = 34 then Some ([], cs)
      else if c < 32 then None
      else if c = 92 then
        (case cs of
           [] \<Rightarrow> None
         | e # r \<Rightarrow>
             if e = 34 \<or> e = 92 \<or> e = 47 then map_option (\<lambda>(s, t). (e # s, t)) (parse_chars r)
             else if e = 117 then
               (case r of
                  h1 # h2 # h3 # h4 # r' \<Rightarrow>
                    (case (hex_val h1, hex_val h2, hex_val h3, hex_val h4) of
                       (Some w, Some x, Some y, Some z) \<Rightarrow>
                         map_option (\<lambda>(s, t). ((((w * 16 + x) * 16 + y) * 16 + z) # s, t))
                           (parse_chars r')
                     | _ \<Rightarrow> None)
                | _ \<Rightarrow> None)
             else None)
      else map_option (\<lambda>(s, t). (c # s, t)) (parse_chars cs))"

fun parse_value :: "nat \<Rightarrow> unicode \<Rightarrow> (jvalue \<times> unicode) option"
  and parse_elements :: "nat \<Rightarrow> unicode \<Rightarrow> (jvalue list \<times> unicode) option"
  and parse_members :: "nat \<Rightarrow> unicode \<Rightarrow> ((unicode \<times> jvalue) list \<times> unicode) option" where
  "parse_value 0 s = None"
| "parse_value (Suc fuel) s =
     (case skip_ws s of
        [] \<Rightarrow> None
      | c # cs \<Rightarrow>
          if c = 110 then (if take 3 cs = lit ''ull'' then Some (JNull, drop 3 cs) else None)
          else if c = 116 then
            (if take 3 cs = lit ''rue'' then Some (JBool True, drop 3 cs) else None)
          else if c = 102 then
            (if take 4 cs = lit ''alse'' then Some (JBool False, drop 4 cs) else None)
          else if c = 34 then map_option (\<lambda>(s, r). (JStr s, r)) (parse_chars cs)
          else if c = 91 then
            (if take 1 (skip_ws cs) = [93] then Some (JList [], drop 1 (skip_ws cs))
             else map_option (\<lambda>(vs, r). (JList vs, r)) (parse_elements fuel cs))
          else if c = 123 then
            (if take 1 (skip_ws cs) = [125] then Some (JDict [], drop 1 (skip_ws cs))
             else map_option (\<lambda>(kvs, r). (JDict kvs, r)) (parse_members fuel cs))
          else parse_number (c # cs))"
| "parse_elements 0 s = None"
| "parse_elements (Suc fuel) s =
     (case parse_value fuel s of
        None \<Rightarrow> None
      | Some (v, r) \<Rightarrow>
          (case skip_ws r of
             [] \<Rightarrow> None
           | c # r' \<Rightarrow>
               if c = 93 then Some ([v], r')
               else if c = 44 then map_option (\<lambda>(vs, t). (v # vs, t)) (parse_elements fuel r')
               else None))"
| "parse_members 0 s = None"
| "parse_members (Suc fuel) s =
     (case skip_ws s of
        [] \<Rightarrow> None
      | q # s' \<Rightarrow>
          if q \<noteq> 34 then None
          else (case parse_chars s' of
             None \<Rightarrow> None
           | Some (k, r) \<Rightarrow>
               (case skip_ws r of
                  [] \<Rightarrow> None
                | colon # r1 \<Rightarrow>
                    if colon \<noteq> 58 then None
                    else (case parse_value fuel r1 of
                       None \<Rightarrow> None
                     | Some (v, r2) \<Rightarrow>
                         (case skip_ws r2 of
                            [] \<Rightarrow> None
                          | c # r3 \<Rightarrow>
                              if c = 125 then Some ([(k, v)], r3)
                              else if c = 44
                              then map_option (\<lambda>(kvs, t). ((k, v) # kvs, t))
                                     (parse_members fuel r3)
                              else None)))))"

definition mini_decode :: "pyval \<Rightarrow> error + jvalue" where
  "mini_decode s =
     (case s of
        TextV t \<Rightarrow>
          (case parse_value (Suc (length t)) t of
             None \<Rightarrow> Inl (ValueError ''No JSON object could be decoded'')
           | Some (v, r) \<Rightarrow> if skip_ws r = [] then Inr v else Inl (ValueError ''Extra data''))
      | _ \<Rightarrow> Inl (TypeError ''expected string or buffer''))"

definition mini_iterencode :: "jvalue \<Rightarrow> error + pyval gen" where
  "mini_iterencode v = Inr (map TextV (iter_value v), None)"

definition mini_json :: "jvalue json_lib" where
  "mini_json = \<lparr> lib_decode = mini_decode, lib_iterencode = mini_iterencode \<rparr>"

section \<open>Random identifiers\<close>

text \<open>
  \<^verbatim>\<open>
  def random20():
      return binascii.hexlify(os.urandom(20)).decode('ascii')
  \<close>
  \<open>urandom\<close> stands for \<^verbatim>\<open>os.urandom\<close>: the bytes the entropy source hands out for a
  requested length.
\<close>

definition hexlify :: "bytes \<Rightarrow> bytes" where
  "hexlify b = concat (map (\<lambda>c. [hex_digit (of_char c div 16), hex_digit (of_char c)]) b)"

text \<open>\<^verbatim>\<open>binascii.unhexlify\<close>, the inverse, for comparison.\<close>

fun unhexlify :: "bytes \<Rightarrow> bytes option" where
  "unhexlify [] = Some []"
| "unhexlify [a] = None"
| "unhexlify (a # b # rest) =
     (case hextobyte [a, b] of
        None \<Rightarrow> None
      | Some c \<Rightarrow> map_option (\<lambda>r. c # r) (unhexlify rest))"

definition lower_hex :: "nat \<Rightarrow> bool" where
  "lower_hex c = ((48 \<le> c \<and> c \<le> 57) \<or> (97 \<le> c \<and> c \<le> 102))"

definition random20 :: "runtime \<Rightarrow> (nat \<Rightarrow> bytes) \<Rightarrow> error + pyval" where
  "random20 rt urandom = meth_decode rt (BytesV (hexlify (urandom 20))) ''ascii'' ''strict''"

section \<open>The MAC address of the host\<close>

text \<open>
  \<^verbatim>\<open>utils.py\<close> talks to the media player through \<^verbatim>\<open>xbmc\<close>. The model keeps what
  \<^verbatim>\<open>get_mac\<close> does to it: the lines logged, the calls of \<^verbatim>\<open>getInfoLabel\<close> and the
  milliseconds slept. \<open>label k\<close> is the answer of
  \<^verbatim>\<open>xbmc.getInfoLabel("Network.MacAddress")\<close> to the call number \<open>k\<close>, counted from 0.
\<close>

datatype loglevel = LOGNOTICE | LOGWARNING | LOGERROR

record host =
  logged :: "(loglevel \<times> string) list"
  queries :: nat
  slept :: nat

definition ADDON_ID :: string where
  "ADDON_ID = ''plugin.audio.squeezebox''"

text \<open>
  \<^verbatim>\<open>
  def log_msg(msg, loglevel=xbmc.LOGNOTICE):
      if isinstance(msg, unicode):
          msg = msg.encode('utf-8')
      xbmc.log("%s --> %s" % (ADDON_ID, msg), level=loglevel)
  \<close>
  Every message of \<^verbatim>\<open>get_mac\<close> is a byte string.
\<close>

definition log_msg :: "string \<Rightarrow> loglevel \<Rightarrow> host \<Rightarrow> host" where
  "log_msg msg level h = h\<lparr>logged := logged h @ [(level, ADDON_ID @ '' --> '' @ msg)]\<rparr>"

definition lower :: "string \<Rightarrow> string" where
  "lower s = map lower_char s"

text \<open>
  \<^verbatim>\<open>
  def get_mac():
      count = 0
      mac = ""
      while ":" not in mac and count < 360:
          log_msg("Waiting for mac address...")
          mac = xbmc.getInfoLabel("Network.MacAddress").lower()
          count += 1
          xbmc.sleep(1000)
      if not mac:
          log_msg("Mac detection failed!")
      else:
          log_msg("Detected Mac-Address: %s" % mac)
      return mac
  \<close>
\<close>

function get_mac_loop :: "(nat \<Rightarrow> string) \<Rightarrow> nat \<Rightarrow> string \<Rightarrow> host \<Rightarrow> nat \<times> string \<times> host" where
  "get_mac_loop label count mac h =
     (if CHR '':'' \<notin> set mac \<and> count < 360
      then get_mac_loop label (count + 1) (lower (label (queries h)))
             ((log_msg ''Waiting for mac address...'' LOGNOTICE h)
                \<lparr>queries := queries h + 1, slept := slept h + 1000\<rparr>)
      else (count, mac, h))"
  by pat_completeness auto
termination
  by (relation "measure (\<lambda>(label, count, mac, h). 360 - count)") auto

definition get_mac :: "(nat \<Rightarrow> string) \<Rightarrow> host \<Rightarrow> string \<times> host" where
  "get_mac label h0 =
     (case get_mac_loop label 0 [] h0 of
        (count, mac, h) \<Rightarrow>
          (mac, if mac = [] then log_msg ''Mac detection failed!'' LOGNOTICE h
                else log_msg (''Detected Mac-Address: '' @ mac) LOGNOTICE h))"

definition host0 :: host where
  "host0 = \<lparr>logged = [], queries = 0, slept = 0\<rparr>"

section \<open>Properties of the codecs\<close>

text \<open>Rules that evaluate characters given by their code.\<close>

lemmas char_eval = char_of_def bit_Suc_0_iff bit_0

lemma lookup_codec_names:
  "lookup_codec ''ISO-8859-1'' = Some Latin1"
  "lookup_codec ''utf-8'' = Some Utf8"
  "lookup_codec ''utf8'' = Some Utf8"
  "lookup_codec ''ascii'' = Some Ascii"
  "lookup_codec ''bogus'' = None"
  by (simp_all add: lookup_codec_def normalize_encoding_def lower_char_def Let_def char_eval)

text \<open>Decoding what a codec has encoded gives the text back, under every error handler.\<close>

lemma latin1_roundtrip: "latin1_encode t = Inr b \<Longrightarrow> latin1_decode b = t"
  by (induction t arbitrary: b) (auto simp: latin1_decode_def emit_def split: if_splits sum.splits)

lemma ascii_roundtrip: "ascii_encode t = Inr b \<Longrightarrow> ascii_decode errors b = Inr t"
  by (induction t arbitrary: b) (auto simp: emit_def split: if_splits sum.splits)


lemma split3:
  fixes c :: nat
  shows "c div 4096 * 4096 + c div 64 mod 64 * 64 + c mod 64 = c"
proof -
  have a: "c = (c div 64) * 64 + c mod 64" by simp
  have b: "c div 64 = (c div 64 div 64) * 64 + c div 64 mod 64" by simp
  have d: "c div 64 div 64 = c div 4096" by (simp add: div_mult2_eq[symmetric])
  show ?thesis using a b d by linarith
qed

lemma split4:
  fixes c :: nat
  shows "c div 262144 * 262144 + c div 4096 mod 64 * 4096 + c div 64 mod 64 * 64 + c mod 64 = c"
proof -
  have a: "c div 4096 * 4096 + c div 64 mod 64 * 64 + c mod 64 = c" by (rule split3)
  have b: "c div 4096 = (c div 4096 div 64) * 64 + c div 4096 mod 64" by simp
  have d: "c div 4096 div 64 = c div 262144" by (simp add: div_mult2_eq[symmetric])
  show ?thesis using a b d by linarith
qed

lemma utf8_decode_2_digits:
  assumes "2 \<le> q" "q < 32" "s < 64"
  shows "utf8_decode errors (char_of (192 + q) # char_of (128 + s) # rest)
         = emit (q * 64 + s) (utf8_decode errors rest)"
proof -
  have 1: "(192 + q) mod 256 = 192 + q" using assms by simp
  have 3: "(128 + s) mod 256 = 128 + s" using assms by simp
  have 5: "is_cont (128 + s)" using assms unfolding is_cont_def by simp
  have 6: "\<not> 192 + q < 128" "\<not> 192 + q < 194" "192 + q < 224"
    using assms by simp_all
  show ?thesis
    by (simp only: utf8_decode.simps of_char_of 1 3 5 6 Let_def if_True if_False list.case
        add_diff_cancel_left')
qed

lemma utf8_decode_3_digits:
  assumes "q < 16" "r < 64" "s < 64" "q = 0 \<longrightarrow> 32 \<le> r" "q = 13 \<longrightarrow> r < 32"
  shows "utf8_decode errors (char_of (224 + q) # char_of (128 + r) # char_of (128 + s) # rest)
         = emit (q * 4096 + r * 64 + s) (utf8_decode errors rest)"
proof -
  have 1: "(224 + q) mod 256 = 224 + q" using assms by simp
  have 2: "(128 + r) mod 256 = 128 + r" using assms by simp
  have 3: "(128 + s) mod 256 = 128 + s" using assms by simp
  have 4: "second3_ok (224 + q) (128 + r)"
    using assms unfolding second3_ok_def is_cont_def by auto
  have 5: "is_cont (128 + s)" using assms unfolding is_cont_def by simp
  have 6: "\<not> 224 + q < 128" "\<not> 224 + q < 194" "\<not> 224 + q < 224" "224 + q < 240"
    using assms by simp_all
  show ?thesis
    by (simp only: utf8_decode.simps of_char_of 1 2 3 4 5 6 Let_def if_True if_False list.case
        not_True_eq_False not_False_eq_True add_diff_cancel_left')
qed

lemma utf8_decode_4_digits:
  assumes "q < 5" "p < 64" "r < 64" "s < 64" "q = 0 \<longrightarrow> 16 \<le> p" "q = 4 \<longrightarrow> p < 16"
  shows "utf8_decode errors
           (char_of (240 + q) # char_of (128 + p) # char_of (128 + r) # char_of (128 + s) # rest)
         = emit (q * 262144 + p * 4096 + r * 64 + s) (utf8_decode errors rest)"
proof -
  have 1: "(240 + q) mod 256 = 240 + q" using assms by simp
  have 2: "(128 + r) mod 256 = 128 + r" using assms by simp
  have 3: "(128 + s) mod 256 = 128 + s" using assms by simp
  have 7: "(128 + p) mod 256 = 128 + p" using assms by simp
  have 4: "second4_ok (240 + q) (128 + p)"
    using assms unfolding second4_ok_def is_cont_def by auto
  have 5: "is_cont (128 + s)" "is_cont (128 + r)" using assms unfolding is_cont_def by simp_all
  have 6: "\<not> 240 + q < 128" "\<not> 240 + q < 194" "\<not> 240 + q < 224" "\<not> 240 + q < 240"
     "240 + q < 245"
    using assms by simp_all
  show ?thesis
    by (simp only: utf8_decode.simps of_char_of 1 2 3 4 5 6 7 Let_def if_True if_False list.case
        not_True_eq_False not_False_eq_True add_diff_cancel_left')
qed

lemma utf8_decode_cp:
  assumes "utf8_encode_cp c = Some b"
  shows "utf8_decode errors (b @ rest) = emit c (utf8_decode errors rest)"
proof -
  consider (one) "c < 128" | (two) "128 \<le> c" "c < 2048"
    | (three) "2048 \<le> c" "c < 65536" "\<not> (55296 \<le> c \<and> c < 57344)"
    | (four) "65536 \<le> c" "c < 1114112"
    using assms by (cases "c < 128"; cases "c < 2048"; cases "c < 65536"; cases "c < 1114112")
                   (simp_all split: if_splits)
  then show ?thesis
  proof cases
    case one
    with assms have b: "b = [char_of c]" by simp
    from one show ?thesis unfolding b by simp
  next
    case two
    with assms have b: "b = [char_of (192 + c div 64), char_of (128 + c mod 64)]" by simp
    have "2 \<le> c div 64" "c div 64 < 32" "c mod 64 < 64" using two by simp_all
    from utf8_decode_2_digits[OF this, of errors rest]
    show ?thesis unfolding b by simp
  next
    case three
    with assms have b: "b = [char_of (224 + c div 4096), char_of (128 + c div 64 mod 64),
                    char_of (128 + c mod 64)]" by simp
    have e: "c div 4096 * 4096 + c div 64 mod 64 * 64 + c mod 64 = c" by (rule split3)
    have r: "c div 64 mod 64 < 64" and s: "c mod 64 < 64" by simp_all
    have q: "c div 4096 < 16" using three by simp
    have z: "c div 4096 = 0 \<longrightarrow> 32 \<le> c div 64 mod 64" using three e r s by linarith
    have y: "c div 4096 = 13 \<longrightarrow> c div 64 mod 64 < 32" using three e r s by linarith
    from utf8_decode_3_digits[OF q r s z y, of errors rest]
    show ?thesis unfolding b e by simp
  next
    case four
    with assms have b: "b = [char_of (240 + c div 262144), char_of (128 + c div 4096 mod 64),
              char_of (128 + c div 64 mod 64), char_of (128 + c mod 64)]" by simp
    have e: "c div 262144 * 262144 + c div 4096 mod 64 * 4096 + c div 64 mod 64 * 64 + c mod 64 = c"
      by (rule split4)
    have p: "c div 4096 mod 64 < 64" and r: "c div 64 mod 64 < 64" and s: "c mod 64 < 64" by simp_all
    have q: "c div 262144 < 5" using four by simp
    have z: "c div 262144 = 0 \<longrightarrow> 16 \<le> c div 4096 mod 64" using four e p r s by linarith
    have y: "c div 262144 = 4 \<longrightarrow> c div 4096 mod 64 < 16" using four e p r s by linarith
    from utf8_decode_4_digits[OF q p r s z y, of errors rest]
    show ?thesis unfolding b e by simp
  qed
qed

lemma utf8_roundtrip: "utf8_encode t = Inr b \<Longrightarrow> utf8_decode errors b = Inr t"
proof (induction t arbitrary: b)
  case Nil
  then show ?case by simp
next
  case (Cons c t)
  then obtain b1 b2 where 1: "utf8_encode_cp c = Some b1" and 2: "utf8_encode t = Inr b2" and 3: "b = b1 @ b2"
    by (auto split: option.splits sum.splits)
  from Cons.IH[OF 2] show ?case unfolding 3 utf8_decode_cp[OF 1] by (simp add: emit_def)
qed


lemma str_encode_roundtrip:
  "str_encode e t = Inr b \<Longrightarrow> bytes_decode e errors b = Inr t"
  by (auto simp: str_encode_def bytes_decode_def latin1_roundtrip ascii_roundtrip utf8_roundtrip
      split: option.splits codec.splits)

text \<open>ASCII bytes decode to themselves under every codec, and encoding goes chunk by
  chunk.\<close>

lemma ascii_decode_ascii:
  "\<forall>c \<in> set b. (of_char c :: nat) < 128 \<Longrightarrow> ascii_decode errors b = Inr (map of_char b)"
  by (induction b) (simp_all add: emit_def)

lemma utf8_decode_ascii:
  "\<forall>c \<in> set b. (of_char c :: nat) < 128 \<Longrightarrow> utf8_decode errors b = Inr (map of_char b)"
  by (induction b) (simp_all add: emit_def)

lemma bytes_decode_ascii:
  assumes "lookup_codec e = Some c" "\<forall>c \<in> set b. (of_char c :: nat) < 128"
  shows "bytes_decode e errors b = Inr (map of_char b)"
  using assms
  by (cases c) (simp_all add: bytes_decode_def latin1_decode_def ascii_decode_ascii utf8_decode_ascii)

lemma utf8_encode_append:
  "utf8_encode (a @ b) =
     (case utf8_encode a of
        Inl e \<Rightarrow> Inl e
      | Inr x \<Rightarrow> (case utf8_encode b of Inl e \<Rightarrow> Inl e | Inr y \<Rightarrow> Inr (x @ y)))"
  by (induction a) (auto split: option.splits sum.splits)

lemma utf8_encode_concat:
  "list_all2 (\<lambda>c b. utf8_encode c = Inr b) chunks bs \<Longrightarrow>
   utf8_encode (concat chunks) = Inr (concat bs)"
  by (induction chunks bs rule: list_all2_induct) (simp_all add: utf8_encode_append)

lemma utf8_encode_ascii: "\<forall>x \<in> set c. x < 128 \<Longrightarrow> utf8_encode c = Inr (map char_of c)"
  by (induction c) simp_all

text \<open>No codec and no error handler raises a \<^verbatim>\<open>TypeError\<close>.\<close>

lemma emit_not_TypeError: "m \<noteq> Inl (TypeError x) \<Longrightarrow> emit c m \<noteq> Inl (TypeError x)"
  by (cases m) (auto simp: emit_def)

lemma on_decode_error_not_TypeError:
  "m \<noteq> Inl (TypeError x) \<Longrightarrow> on_decode_error errors m \<noteq> Inl (TypeError x)"
  by (auto simp: on_decode_error_def emit_not_TypeError)

lemma latin1_encode_not_TypeError: "latin1_encode t \<noteq> Inl (TypeError x)"
  by (induction t) (auto simp: emit_not_TypeError)

lemma ascii_encode_not_TypeError: "ascii_encode t \<noteq> Inl (TypeError x)"
  by (induction t) (auto simp: emit_not_TypeError)

lemma utf8_encode_not_TypeError: "utf8_encode t \<noteq> Inl (TypeError x)"
  by (induction t) (auto split: option.splits sum.splits)

lemma ascii_decode_not_TypeError: "ascii_decode errors b \<noteq> Inl (TypeError x)"
  by (induction b) (auto simp: emit_not_TypeError on_decode_error_not_TypeError)

lemma utf8_decode_not_TypeError: "utf8_decode errors b \<noteq> Inl (TypeError x)"
proof (induction b rule: length_induct)
  case (1 b)
  have IH: "\<And>r. length r < length b \<Longrightarrow> utf8_decode errors r \<noteq> Inl (TypeError x)"
    using 1 by blast
  have nil: "on_decode_error errors (Inr []) \<noteq> Inl (TypeError x)"
    by (rule on_decode_error_not_TypeError) simp
  show ?case
  proof (cases b)
    case Nil
    then show ?thesis by simp
  next
    case (Cons c0 r0)
    show ?thesis
      unfolding Cons utf8_decode.simps Let_def
      by (intro emit_not_TypeError on_decode_error_not_TypeError IH nil
            if_split[where P = "\<lambda>m. m \<noteq> Inl (TypeError x)", THEN iffD2]
            list.split[where P = "\<lambda>m. m \<noteq> Inl (TypeError x)", THEN iffD2]
            conjI impI allI)
         (simp_all add: Cons)
  qed
qed

lemma str_encode_not_TypeError: "str_encode e t \<noteq> Inl (TypeError x)"
  by (auto simp: str_encode_def unknown_encoding_def latin1_encode_not_TypeError
      ascii_encode_not_TypeError utf8_encode_not_TypeError split: option.splits codec.splits)

lemma bytes_decode_not_TypeError: "bytes_decode e errors b \<noteq> Inl (TypeError x)"
  by (auto simp: bytes_decode_def unknown_encoding_def
      ascii_decode_not_TypeError utf8_decode_not_TypeError split: option.splits codec.splits)

lemma escape_sub_not_TypeError: "escape_sub t \<noteq> Inl (TypeError x)"
  by (induction t rule: escape_sub.induct) (auto simp: emit_not_TypeError split: option.splits)

section \<open>The native-string assertion\<close>

text \<open>
  Claim C2. A value that is not of the runtime's native string type makes both
  \<^verbatim>\<open>ntob\<close> and \<^verbatim>\<open>ntou\<close> raise the \<^verbatim>\<open>TypeError\<close> of \<^verbatim>\<open>assert_native\<close>, whose
  message contains the name of the value's type; a native string never makes them raise a
  \<^verbatim>\<open>TypeError\<close>, whatever the encoding (they may raise a lookup, encoding, decoding or
  value error).
\<close>

theorem assert_native_guards_ntob_ntou:
  "(\<not> isinstance_str rt v \<longrightarrow>
      ntob rt v enc = Inl (TypeError (''n must be a native str (got '' @ type_name rt v @ '')''))
    \<and> ntou rt v enc = Inl (TypeError (''n must be a native str (got '' @ type_name rt v @ '')''))
    \<and> sublist (type_name rt v) (''n must be a native str (got '' @ type_name rt v @ '')''))
   \<and> (isinstance_str rt v \<longrightarrow>
        (\<forall>m. ntob rt v enc \<noteq> Inl (TypeError m)) \<and> (\<forall>m. ntou rt v enc \<noteq> Inl (TypeError m)))"
proof (intro conjI impI allI)
  assume n: "\<not> isinstance_str rt v"
  show "ntob rt v enc = Inl (TypeError (''n must be a native str (got '' @ type_name rt v @ '')''))"
    using n by (simp add: ntob_def assert_native_def and_then_def)
  show "ntou rt v enc = Inl (TypeError (''n must be a native str (got '' @ type_name rt v @ '')''))"
    using n by (simp add: ntou_def assert_native_def and_then_def)
  show "sublist (type_name rt v) (''n must be a native str (got '' @ type_name rt v @ '')'')"
    unfolding sublist_def by blast
next
  fix m assume y: "isinstance_str rt v"
  show "ntob rt v enc \<noteq> Inl (TypeError m)"
  proof (cases rt)
    case PY2
    with y show ?thesis by (simp add: ntob_def assert_native_def and_then_def)
  next
    case PY3
    with y obtain t where "v = TextV t" by (cases v) auto
    with PY3 show ?thesis
      using str_encode_not_TypeError[of enc t m]
      by (auto simp: ntob_def assert_native_def and_then_def split: sum.splits)
  qed
next
  fix m assume y: "isinstance_str rt v"
  show "ntou rt v enc \<noteq> Inl (TypeError m)"
  proof (cases rt)
    case PY3
    with y show ?thesis by (simp add: ntou_def assert_native_def and_then_def)
  next
    case PY2
    with y obtain b where "v = BytesV b" by (cases v) auto
    with PY2 show ?thesis
      using bytes_decode_not_TypeError[of enc "''strict''" b m]
        bytes_decode_not_TypeError[of "''ISO-8859-1''" "''strict''" b m]
        escape_sub_not_TypeError[of _ m]
      by (auto simp: ntou_def assert_native_def and_then_def split: sum.splits pyval.splits)
  qed
qed

theorem assert_native_guards_ntob_ntou_witness:
  "ntob PY3 (IntV 5) ''utf-8'' = Inl (TypeError ''n must be a native str (got int)'')
   \<and> ntou PY3 (IntV 5) ''utf-8'' = Inl (TypeError ''n must be a native str (got int)'')
   \<and> sublist ''int'' ''n must be a native str (got int)''
   \<and> (\<forall>m. ntob PY2 (BytesV ''abc'') ''utf-8'' \<noteq> Inl (TypeError m))
   \<and> (\<forall>m. ntou PY2 (BytesV ''abc'') ''utf-8'' \<noteq> Inl (TypeError m))"
  using assert_native_guards_ntob_ntou [of PY3 "IntV 5" "''utf-8''"]
    assert_native_guards_ntob_ntou [of PY2 "BytesV ''abc''" "''utf-8''"]
  by simp

text \<open>
  Claim C10. \<^verbatim>\<open>tonative\<close> asserts nothing about its argument: a value that is neither
  a byte string nor a string of code points is returned as it is, on both runtimes and
  for every encoding, where \<^verbatim>\<open>ntob\<close> and \<^verbatim>\<open>ntou\<close> raise a \<^verbatim>\<open>TypeError\<close>.
\<close>

theorem tonative_passes_other_values:
  "\<not> isinstance_bytes v \<and> \<not> isinstance_unicode v \<longrightarrow>
     tonative rt v enc = Inr v
     \<and> (\<exists>m. ntob rt v enc = Inl (TypeError m)) \<and> (\<exists>m. ntou rt v enc = Inl (TypeError m))"
  by (cases v; cases rt)
     (auto simp: tonative_def ntob_def ntou_def assert_native_def and_then_def)

theorem tonative_passes_other_values_witness:
  "\<not> isinstance_bytes NoneV \<and> \<not> isinstance_unicode NoneV
   \<and> tonative PY3 NoneV ''ISO-8859-1'' = Inr NoneV
   \<and> (\<exists>m. ntob PY3 NoneV ''ISO-8859-1'' = Inl (TypeError m))
   \<and> (\<exists>m. ntou PY3 NoneV ''ISO-8859-1'' = Inl (TypeError m))"
  using tonative_passes_other_values [of NoneV PY3 "''ISO-8859-1''"] by simp

section \<open>Round trips through the byte representation\<close>

text \<open>
  Claim C1 says that \<^verbatim>\<open>ntou(ntob(s, e), e)\<close> equals \<^verbatim>\<open>tonative(s, e)\<close> for every native
  string. On Python 3 the result of \<^verbatim>\<open>ntob\<close> is a byte string, which \<^verbatim>\<open>ntou\<close>
  rejects: for the string \<^verbatim>\<open>"a"\<close> and the default encoding the left side raises
  \<^verbatim>\<open>TypeError\<close> and the right side is \<^verbatim>\<open>"a"\<close>.
\<close>

theorem ntou_after_ntob_counterexample:
  "and_then (ntob PY3 (TextV (lit ''a'')) ''ISO-8859-1'') (\<lambda>b. ntou PY3 b ''ISO-8859-1'')
     = Inl (TypeError ''n must be a native str (got bytes)'')
   \<and> tonative PY3 (TextV (lit ''a'')) ''ISO-8859-1'' = Inr (TextV (lit ''a''))
   \<and> and_then (ntob PY3 (TextV (lit ''a'')) ''ISO-8859-1'') (\<lambda>b. ntou PY3 b ''ISO-8859-1'')
     \<noteq> tonative PY3 (TextV (lit ''a'')) ''ISO-8859-1''"
  by (simp add: ntob_def ntou_def tonative_def assert_native_def and_then_def str_encode_def
      lookup_codec_names lit_def emit_def)

text \<open>
  Claim C1, amended. Whenever \<^verbatim>\<open>ntob(s, e)\<close> returns a value \<open>b\<close> (so \<open>s\<close> is a native
  string, and on Python 3 the encoding is one of the codecs and encodes \<open>s\<close>), it is
  \<^verbatim>\<open>tonative\<close> that takes \<open>b\<close> back: \<^verbatim>\<open>tonative(b, e)\<close> and \<^verbatim>\<open>tonative(s, e)\<close> are
  both \<open>s\<close>, on both runtimes. \<^verbatim>\<open>ntou(b, e)\<close> raises the \<^verbatim>\<open>TypeError\<close> for
  \<^verbatim>\<open>bytes\<close> on Python 3 and is \<^verbatim>\<open>ntou(s, e)\<close> on Python 2, where \<^verbatim>\<open>ntob\<close> returns its
  argument.
\<close>

theorem tonative_after_ntob:
  assumes "ntob rt s e = Inr b"
  shows "tonative rt b e = Inr s \<and> tonative rt s e = Inr s
         \<and> ntou rt b e = (case rt of PY3 \<Rightarrow> Inl (TypeError ''n must be a native str (got bytes)'')
                                    | PY2 \<Rightarrow> ntou rt s e)"
proof (cases rt)
  case PY2
  with assms have "isinstance_str PY2 s" and b: "b = s"
    by (auto simp: ntob_def assert_native_def and_then_def split: if_splits)
  then obtain bs where "s = BytesV bs" by (cases s) auto
  with PY2 b show ?thesis by (simp add: tonative_def)
next
  case PY3
  with assms have n: "isinstance_str PY3 s"
    by (auto simp: ntob_def assert_native_def and_then_def split: if_splits)
  then obtain t where s: "s = TextV t" by (cases s) auto
  with PY3 assms obtain bs where enc: "str_encode e t = Inr bs" and b: "b = BytesV bs"
    by (auto simp: ntob_def assert_native_def and_then_def split: sum.splits)
  have "bytes_decode e ''strict'' bs = Inr t" using enc by (rule str_encode_roundtrip)
  with PY3 s b show ?thesis
    by (simp add: tonative_def ntou_def assert_native_def and_then_def)
qed

theorem tonative_after_ntob_witness:
  "ntob PY3 (TextV [233, 8364]) ''utf-8'' = Inr (BytesV [CHR 0xC3, CHR 0xA9, CHR 0xE2, CHR 0x82, CHR 0xAC])
   \<and> tonative PY3 (BytesV [CHR 0xC3, CHR 0xA9, CHR 0xE2, CHR 0x82, CHR 0xAC]) ''utf-8'' = Inr (TextV [233, 8364])
   \<and> tonative PY3 (TextV [233, 8364]) ''utf-8'' = Inr (TextV [233, 8364])
   \<and> ntou PY3 (BytesV [CHR 0xC3, CHR 0xA9, CHR 0xE2, CHR 0x82, CHR 0xAC]) ''utf-8''
       = Inl (TypeError ''n must be a native str (got bytes)'')"
proof -
  have h: "ntob PY3 (TextV [233, 8364]) ''utf-8'' = Inr (BytesV [CHR 0xC3, CHR 0xA9, CHR 0xE2, CHR 0x82, CHR 0xAC])"
    by (simp add: ntob_def assert_native_def and_then_def str_encode_def lookup_codec_names char_eval)
  from tonative_after_ntob [OF h] have
    "tonative PY3 (BytesV [CHR 0xC3, CHR 0xA9, CHR 0xE2, CHR 0x82, CHR 0xAC]) ''utf-8'' = Inr (TextV [233, 8364])
     \<and> tonative PY3 (TextV [233, 8364]) ''utf-8'' = Inr (TextV [233, 8364])
     \<and> ntou PY3 (BytesV [CHR 0xC3, CHR 0xA9, CHR 0xE2, CHR 0x82, CHR 0xAC]) ''utf-8''
       = Inl (TypeError ''n must be a native str (got bytes)'')"
    by (simp only: runtime.case)
  with h show ?thesis by (rule conjI)
qed

section \<open>Base64 decoding of either string type\<close>

text \<open>
  Claim C7. A text \<open>t\<close> and the byte string \<open>b\<close> that it encodes to are decoded to the
  same result, by every base64 primitive and on both runtimes: the error of the
  primitive, or else its output, decoded with the given encoding to a native string on
  Python 3 and returned as bytes on Python 2.
\<close>

theorem base64_decode_text_and_bytes:
  assumes "str_encode encoding t = Inr b"
  shows "base64_decode rt a2b (TextV t) encoding = base64_decode rt a2b (BytesV b) encoding
       \<and> base64_decode rt a2b (BytesV b) encoding =
           (case a2b b of
              Inl e \<Rightarrow> Inl e
            | Inr d \<Rightarrow>
                if rt = PY3
                then (case bytes_decode encoding ''strict'' d of
                        Inl e \<Rightarrow> Inl e | Inr u \<Rightarrow> Inr (TextV u))
                else Inr (BytesV d))"
  using assms
  by (cases rt)
     (auto simp: base64_decode_def base64_decodebytes_def isinstance_text_type_def
        str_is_text_type_def and_then_def split: sum.splits)

theorem base64_decode_text_and_bytes_witness:
  "str_encode ''ISO-8859-1'' (lit ''aGVsbG8='') = Inr ''aGVsbG8=''
   \<and> base64_decode PY3 a2b_base64 (TextV (lit ''aGVsbG8='')) ''ISO-8859-1''
       = base64_decode PY3 a2b_base64 (BytesV ''aGVsbG8='') ''ISO-8859-1''
   \<and> base64_decode PY3 a2b_base64 (BytesV ''aGVsbG8='') ''ISO-8859-1'' = Inr (TextV (lit ''hello''))"
proof -
  have h: "str_encode ''ISO-8859-1'' (lit ''aGVsbG8='') = Inr ''aGVsbG8=''"
    by (simp add: str_encode_def lookup_codec_names lit_def emit_def char_eval)
  have a: "a2b_base64 ''aGVsbG8='' = Inr ''hello''"
    by (simp add: a2b_base64_def b64_val_def emit_def char_eval)
  have d: "bytes_decode ''ISO-8859-1'' ''strict'' ''hello'' = Inr (lit ''hello'')"
    by (simp add: bytes_decode_def lookup_codec_names lit_def latin1_decode_def)
  note r = base64_decode_text_and_bytes [OF h, of PY3 a2b_base64]
  have 1: "base64_decode PY3 a2b_base64 (TextV (lit ''aGVsbG8='')) ''ISO-8859-1''
       = base64_decode PY3 a2b_base64 (BytesV ''aGVsbG8='') ''ISO-8859-1''"
    using r by (rule conjunct1)
  have 2: "base64_decode PY3 a2b_base64 (BytesV ''aGVsbG8='') ''ISO-8859-1'' = Inr (TextV (lit ''hello''))"
    unfolding r [THEN conjunct2] by (simp add: a d)
  from h 1 2 show ?thesis by (intro conjI)
qed

section \<open>JSON without a library\<close>

text \<open>
  Claim C4. When \<^verbatim>\<open>simplejson\<close> cannot be imported on a Python older than 2.6, loading
  the module binds \<^verbatim>\<open>json\<close> to \<^verbatim>\<open>None\<close> without raising, and every later call of
  \<^verbatim>\<open>json_encode\<close> or \<^verbatim>\<open>json_decode\<close> raises the \<^verbatim>\<open>ValueError\<close> that no JSON
  library is available: no call returns a value.
\<close>

theorem json_without_library:
  assumes "\<not> version_ge_2_6 version_info"
  shows "import_json None version_info stdlib = None
       \<and> json_encode rt (import_json None version_info stdlib) v
           = Inl (ValueError ''No JSON library is available'')
       \<and> json_decode (import_json None version_info stdlib) s
           = Inl (ValueError ''No JSON library is available'')"
  using assms by (simp add: import_json_def json_encode_def json_decode_def priv_json_encode_def)

theorem json_without_library_witness:
  "\<not> version_ge_2_6 (2, 5)
   \<and> import_json None (2, 5) mini_json = None
   \<and> json_encode PY2 (import_json None (2, 5) mini_json) (JDict [(lit ''k'', JInt 1)])
       = Inl (ValueError ''No JSON library is available'')
   \<and> json_decode (import_json None (2, 5) mini_json) (BytesV ''null'')
       = Inl (ValueError ''No JSON library is available'')"
proof -
  have h: "\<not> version_ge_2_6 (2, 5)" by (simp add: version_ge_2_6_def)
  from h json_without_library [OF h, of mini_json PY2 "JDict [(lit ''k'', JInt 1)]" "BytesV ''null''"]
  show ?thesis by (rule conjI)
qed

section \<open>JSON round trip through bytes\<close>

lemma encode_chunks_utf8:
  "list_all2 (\<lambda>c b. utf8_encode c = Inr b) chunks bs \<Longrightarrow>
   encode_chunks rt (map TextV chunks) fin = (map BytesV bs, fin)"
  by (induction chunks bs rule: list_all2_induct)
     (simp_all add: str_encode_def lookup_codec_names and_then_def)

lemma join_bytes_map: "join_bytes (map BytesV bs) = Some (concat bs)"
  by (induction bs) simp_all

text \<open>
  Claim C3. On Python 3 with a JSON library \<open>l\<close>, let the encoder of \<open>l\<close> yield the
  fragments \<open>chunks\<close> for a value \<open>v\<close> and finish, let \<open>bs\<close> be their UTF-8 encodings, and
  let the decoder of \<open>l\<close> read the concatenated fragments back as \<open>v\<close> (which is what makes
  \<open>v\<close> representable for \<open>l\<close>). Then \<^verbatim>\<open>json_encode(v)\<close> yields exactly the byte chunks
  \<open>bs\<close> and finishes, their concatenation decodes as UTF-8 to the concatenated fragments,
  and \<^verbatim>\<open>json_decode\<close> of that text is \<open>v\<close>.
\<close>

theorem json_encode_roundtrip:
  assumes enc: "lib_iterencode l v = Inr (map TextV chunks, None)"
    and ok: "list_all2 (\<lambda>c b. utf8_encode c = Inr b) chunks bs"
    and dec: "lib_decode l (TextV (concat chunks)) = Inr v"
  shows "json_encode PY3 (Some l) v = Inr (map BytesV bs, None)
       \<and> join_bytes (map BytesV bs) = Some (concat bs)
       \<and> bytes_decode ''utf-8'' ''strict'' (concat bs) = Inr (concat chunks)
       \<and> json_decode (Some l) (TextV (concat chunks)) = Inr v"
proof -
  have 1: "json_encode PY3 (Some l) v = Inr (map BytesV bs, None)"
    using enc by (simp add: json_encode_def priv_json_encode_def encode_chunks_utf8 [OF ok])
  have "utf8_encode (concat chunks) = Inr (concat bs)" using ok by (rule utf8_encode_concat)
  then have "utf8_decode ''strict'' (concat bs) = Inr (concat chunks)" by (rule utf8_roundtrip)
  then have 3: "bytes_decode ''utf-8'' ''strict'' (concat bs) = Inr (concat chunks)"
    by (simp add: bytes_decode_def lookup_codec_names)
  have 4: "json_decode (Some l) (TextV (concat chunks)) = Inr v"
    using dec by (simp add: json_decode_def)
  from 1 join_bytes_map 3 4 show ?thesis by blast
qed

text \<open>The example \<^verbatim>\<open>{"k": 1, "e": "\<dots>"}\<close> with two characters outside ASCII, in the small library.\<close>

lemma mini_json_example_chunks: "lib_iterencode mini_json (JDict [(lit ''k'', JInt 1), (lit ''e'', JStr [233, 8364])])
       = Inr (map TextV [[123], [34, 107, 34], [58, 32], [49], [44, 32], [34, 101, 34], [58, 32],
                         [34, 233, 8364, 34], [125]], None)"
  by (simp add: mini_json_def mini_iterencode_def lit_def json_string_def json_escape_def
      int_str_def)

lemma mini_json_example_utf8: "list_all2 (\<lambda>c b. utf8_encode c = Inr b)
        [[123], [34, 107, 34], [58, 32], [49], [44, 32], [34, 101, 34], [58, 32],
         [34, 233, 8364, 34], [125]]
        [''{'', [CHR 0x22, CHR ''k'', CHR 0x22], '': '', ''1'', '', '',
         [CHR 0x22, CHR ''e'', CHR 0x22], '': '',
         [CHR 0x22, CHR 0xC3, CHR 0xA9, CHR 0xE2, CHR 0x82, CHR 0xAC, CHR 0x22], ''}'']"
  by (simp add: char_eval)

lemma mini_json_example_decode: "lib_decode mini_json (TextV (concat [[123], [34, 107, 34], [58, 32], [49], [44, 32], [34, 101, 34], [58, 32],
         [34, 233, 8364, 34], [125]])) = Inr (JDict [(lit ''k'', JInt 1), (lit ''e'', JStr [233, 8364])])"
  by (simp add: mini_json_def mini_decode_def lit_def parse_number_def parse_nat_def)

theorem json_encode_roundtrip_witness:
  "lib_iterencode mini_json (JDict [(lit ''k'', JInt 1), (lit ''e'', JStr [233, 8364])])
       = Inr (map TextV [[123], [34, 107, 34], [58, 32], [49], [44, 32], [34, 101, 34], [58, 32],
                         [34, 233, 8364, 34], [125]], None)
   \<and> list_all2 (\<lambda>c b. utf8_encode c = Inr b)
        [[123], [34, 107, 34], [58, 32], [49], [44, 32], [34, 101, 34], [58, 32],
         [34, 233, 8364, 34], [125]]
        [''{'', [CHR 0x22, CHR ''k'', CHR 0x22], '': '', ''1'', '', '',
         [CHR 0x22, CHR ''e'', CHR 0x22], '': '',
         [CHR 0x22, CHR 0xC3, CHR 0xA9, CHR 0xE2, CHR 0x82, CHR 0xAC, CHR 0x22], ''}'']
   \<and> json_encode PY3 (Some mini_json) (JDict [(lit ''k'', JInt 1), (lit ''e'', JStr [233, 8364])])
       = Inr (map BytesV
               [''{'', [CHR 0x22, CHR ''k'', CHR 0x22], '': '', ''1'', '', '',
                [CHR 0x22, CHR ''e'', CHR 0x22], '': '',
                [CHR 0x22, CHR 0xC3, CHR 0xA9, CHR 0xE2, CHR 0x82, CHR 0xAC, CHR 0x22], ''}''],
              None)
   \<and> json_decode (Some mini_json)
         (TextV (concat [[123], [34, 107, 34], [58, 32], [49], [44, 32], [34, 101, 34], [58, 32],
                         [34, 233, 8364, 34], [125]]))
       = Inr (JDict [(lit ''k'', JInt 1), (lit ''e'', JStr [233, 8364])])"
proof -
  note t = json_encode_roundtrip [OF mini_json_example_chunks mini_json_example_utf8
      mini_json_example_decode]
  from mini_json_example_chunks mini_json_example_utf8 t [THEN conjunct1] t [THEN conjunct2, THEN conjunct2, THEN conjunct2]
  show ?thesis by (intro conjI)
qed

section \<open>Query strings\<close>

text \<open>\<^verbatim>\<open>split\<close> never returns the empty list, and returns one piece only for a string
  without the separator.\<close>

lemma split_on_not_Nil: "split_on d s \<noteq> []"
  by (induction s) (auto split: list.splits)

lemma split_on_Cons_other:
  "x \<noteq> d \<Longrightarrow> split_on d (x # xs) = (x # hd (split_on d xs)) # tl (split_on d xs)"
  using split_on_not_Nil [of d xs] by (cases "split_on d xs") simp_all

lemma split_on_Cons_sep: "split_on d (d # xs) = [] # split_on d xs"
  by simp

declare split_on.simps(2) [simp del]

lemma split_on_single: "split_on d s = [b] \<Longrightarrow> s = b"
proof (induction s arbitrary: b)
  case Nil
  then show ?case by simp
next
  case (Cons x xs)
  show ?case
  proof (cases "x = d")
    case True
    with Cons.prems split_on_not_Nil [of d xs] show ?thesis by (simp add: split_on_Cons_sep)
  next
    case False
    with Cons.prems have "(x # hd (split_on d xs)) # tl (split_on d xs) = [b]"
      by (simp add: split_on_Cons_other)
    then have b: "b = x # hd (split_on d xs)" and t: "tl (split_on d xs) = []" by simp_all
    from t split_on_not_Nil [of d xs] have "split_on d xs = [hd (split_on d xs)]"
      by (cases "split_on d xs") simp_all
    from Cons.IH [OF this] b show ?thesis by simp
  qed
qed

lemma unquote_to_bytes_alt:
  "unquote_to_bytes s =
     hd (split_on CHR ''%'' s) @ unquote_items (tl (split_on CHR ''%'' s))"
proof (cases "split_on CHR ''%'' s")
  case Nil
  with split_on_not_Nil [of "CHR ''%''" s] show ?thesis by simp
next
  case (Cons b items)
  show ?thesis
  proof (cases items)
    case Nil
    with Cons split_on_single [of "CHR ''%''" s b] show ?thesis
      by (simp add: unquote_to_bytes_def)
  next
    case (Cons i more)
    with \<open>split_on CHR ''%'' s = b # items\<close> show ?thesis
      by (simp add: unquote_to_bytes_def)
  qed
qed

lemma hextobyte_short: "hextobyte [] = None" "hextobyte [a] = None"
  by (simp_all add: hextobyte_def)

lemma hextobyte_not_percent:
  "hextobyte [a, b] = Some c \<Longrightarrow> a \<noteq> CHR ''%'' \<and> b \<noteq> CHR ''%''"
  by (auto simp: hextobyte_def hex_val_def split: option.splits)

lemma unquote_to_bytes_Nil: "unquote_to_bytes [] = []"
  by (simp add: unquote_to_bytes_def)

lemma unquote_to_bytes_other:
  "x \<noteq> CHR ''%'' \<Longrightarrow> unquote_to_bytes (x # xs) = x # unquote_to_bytes xs"
  by (simp add: unquote_to_bytes_alt split_on_Cons_other)

lemma unquote_to_bytes_escape:
  assumes "hextobyte [a, b] = Some c"
  shows "unquote_to_bytes (CHR ''%'' # a # b # rest) = c # unquote_to_bytes rest"
proof -
  from assms have n: "a \<noteq> CHR ''%''" "b \<noteq> CHR ''%''" using hextobyte_not_percent by blast+
  show ?thesis
    using assms n
    by (simp add: unquote_to_bytes_alt [of "CHR ''%'' # a # b # rest"]
                  unquote_to_bytes_alt [of rest] split_on_Cons_other split_on_Cons_sep)
qed

lemma unquote_to_bytes_percent:
  assumes "hextobyte (take 2 xs) = None"
  shows "unquote_to_bytes (CHR ''%'' # xs) = CHR ''%'' # unquote_to_bytes xs"
proof -
  have "hextobyte (take 2 (hd (split_on CHR ''%'' xs))) = None"
  proof (cases xs)
    case Nil
    then show ?thesis by (simp add: hextobyte_short)
  next
    case (Cons a r)
    note xs = this
    show ?thesis
    proof (cases "a = CHR ''%''")
      case True
      with xs show ?thesis by (simp add: hextobyte_short split_on_Cons_sep)
    next
      case False
      note a = this
      show ?thesis
      proof (cases r)
        case Nil
        with xs a show ?thesis by (simp add: split_on_Cons_other hextobyte_short)
      next
        case (Cons b r')
        show ?thesis
        proof (cases "b = CHR ''%''")
          case True
          with xs a Cons show ?thesis
            by (simp add: split_on_Cons_other split_on_Cons_sep hextobyte_short)
        next
          case False
          with xs a Cons assms show ?thesis by (simp add: split_on_Cons_other)
        qed
      qed
    qed
  qed
  then show ?thesis
    using split_on_not_Nil [of "CHR ''%''" xs]
    by (cases "split_on CHR ''%'' xs")
       (simp_all add: unquote_to_bytes_alt [of "CHR ''%'' # xs"] unquote_to_bytes_alt [of xs]
          split_on_Cons_sep)
qed

text \<open>The loop over the pieces between the \<^verbatim>\<open>%\<close> signs decodes exactly as a scan from left
  to right does.\<close>

lemma hextobyte_take2_Some:
  assumes "hextobyte (take 2 xs) = Some c"
  obtains a b rest where "xs = a # b # rest" "hextobyte [a, b] = Some c"
proof (cases xs)
  case Nil
  with assms show ?thesis by (simp add: hextobyte_short)
next
  case (Cons a r)
  show ?thesis
  proof (cases r)
    case Nil
    with assms Cons show ?thesis by (simp add: hextobyte_short)
  next
    case (Cons b rest)
    with assms \<open>xs = a # r\<close> that show ?thesis by simp
  qed
qed

lemma unquote_to_bytes_Cons:
  "unquote_to_bytes (x # xs) =
     (if x = CHR ''%'' then
        (case hextobyte (take 2 xs) of
           None \<Rightarrow> CHR ''%'' # unquote_to_bytes xs
         | Some c \<Rightarrow> c # unquote_to_bytes (drop 2 xs))
      else x # unquote_to_bytes xs)"
proof (cases "x = CHR ''%''")
  case False
  then show ?thesis by (simp add: unquote_to_bytes_other)
next
  case True
  show ?thesis
  proof (cases "hextobyte (take 2 xs)")
    case None
    with True show ?thesis by (simp add: unquote_to_bytes_percent)
  next
    case (Some c)
    then obtain a b rest where xs: "xs = a # b # rest" and h: "hextobyte [a, b] = Some c"
      by (rule hextobyte_take2_Some)
    with True show ?thesis by (simp add: unquote_to_bytes_escape)
  qed
qed

lemma percent_decode_Cons:
  "percent_decode (x # xs) =
     (if x = CHR ''%'' then
        (case hextobyte (take 2 xs) of
           None \<Rightarrow> CHR ''%'' # percent_decode xs
         | Some c \<Rightarrow> c # percent_decode (drop 2 xs))
      else x # percent_decode xs)"
proof (cases xs)
  case Nil
  then show ?thesis by (simp add: hextobyte_short)
next
  case (Cons a r)
  show ?thesis
  proof (cases r)
    case Nil
    with Cons show ?thesis by (simp add: hextobyte_short)
  next
    case (Cons b rest)
    with \<open>xs = a # r\<close> show ?thesis by (auto split: option.splits)
  qed
qed

lemma unquote_to_bytes_percent_decode: "unquote_to_bytes s = percent_decode s"
proof (induction s rule: length_induct)
  case (1 s)
  show ?case
  proof (cases s)
    case Nil
    then show ?thesis by (simp add: unquote_to_bytes_Nil)
  next
    case (Cons x xs)
    have a: "unquote_to_bytes xs = percent_decode xs" using 1 Cons by simp
    have b: "unquote_to_bytes (drop 2 xs) = percent_decode (drop 2 xs)" using 1 Cons by simp
    show ?thesis
      unfolding Cons unquote_to_bytes_Cons percent_decode_Cons a b ..
  qed
qed

lemma unquote_to_bytes_no_percent: "CHR ''%'' \<notin> set s \<Longrightarrow> unquote_to_bytes s = s"
proof (induction s)
  case Nil
  then show ?case by (simp add: unquote_to_bytes_Nil)
next
  case (Cons a s)
  then have "a \<noteq> CHR ''%''" and "unquote_to_bytes s = s" by auto
  then show ?case by (simp add: unquote_to_bytes_other)
qed

text \<open>Byte strings and strings of code points, for ASCII.\<close>

lemma of_char_eq_percent: "(of_char c :: nat) = 37 \<longleftrightarrow> c = CHR ''%''"
proof -
  have "(of_char c :: nat) = of_char CHR ''%'' \<longleftrightarrow> c = CHR ''%''" by (simp only: of_char_eq_iff)
  then show ?thesis by simp
qed

lemma of_char_eq_plus: "(of_char c :: nat) = 43 \<longleftrightarrow> c = CHR ''+''"
proof -
  have "(of_char c :: nat) = of_char CHR ''+'' \<longleftrightarrow> c = CHR ''+''" by (simp only: of_char_eq_iff)
  then show ?thesis by simp
qed

lemma replace_char_of_char:
  "replace_char (43::nat) 32 (map of_char atom)
     = map of_char (replace_char CHR ''+'' CHR '' '' atom)"
  by (induction atom) (simp_all add: replace_char_def of_char_eq_plus)

lemma replace_char_ascii:
  "\<forall>c \<in> set atom. (of_char c :: nat) < 128 \<Longrightarrow>
   \<forall>c \<in> set (replace_char CHR ''+'' CHR '' '' atom). (of_char c :: nat) < 128"
  by (induction atom) (simp_all add: replace_char_def)

lemma replace_char_percent:
  "CHR ''%'' \<in> set (replace_char CHR ''+'' CHR '' '' atom) \<longleftrightarrow> CHR ''%'' \<in> set atom"
  by (induction atom) (auto simp: replace_char_def)

lemma unquote_runs_ascii:
  "\<forall>c \<in> set cs. c < 128 \<Longrightarrow>
   unquote_runs encoding errors run cs = unquote_run encoding errors (run @ cs)"
  by (induction cs arbitrary: run) simp_all

lemma percent_in_text: "37 \<in> set (map of_char s :: nat list) \<longleftrightarrow> CHR ''%'' \<in> set s"
  by (induction s) (auto simp: of_char_eq_percent)

lemma parse_unquote_py3_ascii:
  assumes "\<forall>c \<in> set s. (of_char c :: nat) < 128"
  shows "parse_unquote_py3 (map of_char s) encoding errors =
           (if CHR ''%'' \<in> set s then bytes_decode encoding errors (unquote_to_bytes s)
            else Inr (map of_char s))"
proof (cases "CHR ''%'' \<in> set s")
  case False
  then show ?thesis by (simp add: parse_unquote_py3_def percent_in_text del: set_map)
next
  case True
  then have ne: "s \<noteq> []" by auto
  have a: "\<forall>c \<in> set (map of_char s :: nat list). c < 128" using assms by simp
  have "parse_unquote_py3 (map of_char s) encoding errors
          = unquote_runs encoding errors [] (map of_char s)"
    using True by (simp add: parse_unquote_py3_def percent_in_text del: set_map)
  also have "\<dots> = unquote_run encoding errors (map of_char s)"
    using unquote_runs_ascii [OF a, of encoding errors "[]"] by simp
  also have "\<dots> = bytes_decode encoding errors (unquote_to_bytes s)"
    using ne by (simp add: unquote_run_def comp_def)
  finally show ?thesis using True by simp
qed

lemma unquote_qs_py2_spec:
  "unquote_qs_py2 decode atom encoding errors = spec_unquote_qs decode atom encoding errors"
  by (simp add: unquote_qs_py2_def spec_unquote_qs_def parse_unquote_py2_def
      unquote_to_bytes_percent_decode)

lemma unquote_qs_py3_py2:
  assumes "list_all (\<lambda>c. (of_char c :: nat) < 128) atom"
    and "lookup_codec encoding \<noteq> None \<or> CHR ''%'' \<in> set atom"
  shows "unquote_qs_py3 (map of_char atom) encoding errors
         = unquote_qs_py2 bytes_decode atom encoding errors"
proof -
  let ?r = "replace_char CHR ''+'' CHR '' '' atom"
  have "\<forall>c \<in> set atom. (of_char c :: nat) < 128" using assms(1) by (simp add: list_all_iff)
  then have a: "\<forall>c \<in> set ?r. (of_char c :: nat) < 128" by (rule replace_char_ascii)
  have 3: "unquote_qs_py3 (map of_char atom) encoding errors =
           (if CHR ''%'' \<in> set ?r then bytes_decode encoding errors (unquote_to_bytes ?r)
            else Inr (map of_char ?r))"
    by (simp only: unquote_qs_py3_def replace_char_of_char parse_unquote_py3_ascii [OF a])
  show ?thesis
  proof (cases "CHR ''%'' \<in> set atom")
    case True
    then show ?thesis
      unfolding 3 by (simp add: replace_char_percent unquote_qs_py2_def parse_unquote_py2_def)
  next
    case False
    with assms(2) obtain c where c: "lookup_codec encoding = Some c" by auto
    from False have n: "CHR ''%'' \<notin> set ?r" by (simp add: replace_char_percent)
    show ?thesis
      unfolding 3 using n
      by (simp add: unquote_qs_py2_def parse_unquote_py2_def unquote_to_bytes_no_percent
          bytes_decode_ascii [OF c a])
  qed
qed

text \<open>Examples.\<close>

lemma unquote_qs_py3_example: "unquote_qs_py3 (lit ''a+b%20c'') ''utf-8'' ''strict'' = Inr (lit ''a b c'')"
  by (simp add: unquote_qs_py3_def replace_char_def lit_def parse_unquote_py3_def unquote_run_def
      unquote_to_bytes_def hextobyte_def hex_val_def bytes_decode_def lookup_codec_names
      and_then_def emit_def split_on.simps char_eval)

lemma unquote_qs_py2_example:
  "unquote_qs_py2 decode ''a+b%20c'' ''utf-8'' ''strict'' = decode ''utf-8'' ''strict'' ''a b c''"
  by (simp add: unquote_qs_py2_def replace_char_def parse_unquote_py2_def
      unquote_to_bytes_def hextobyte_def hex_val_def split_on.simps char_eval)

lemma utf8_decode_example: "bytes_decode ''utf-8'' ''strict'' ''a b c'' = Inr (lit ''a b c'')"
  by (simp add: lit_def bytes_decode_def lookup_codec_names emit_def char_eval)

lemma unquote_qs_py3_escaped_plus: "unquote_qs_py3 (lit ''a%2Bb+c'') ''utf-8'' ''strict'' = Inr (lit ''a+b c'')"
  by (simp add: unquote_qs_py3_def replace_char_def lit_def parse_unquote_py3_def unquote_run_def
      unquote_to_bytes_def hextobyte_def hex_val_def bytes_decode_def lookup_codec_names
      and_then_def emit_def split_on.simps char_eval)

lemma unquote_qs_unknown_encoding:
  "unquote_qs_py3 (lit ''abc'') ''bogus'' ''strict'' = Inr (lit ''abc'')
   \<and> unquote_qs_py2 bytes_decode ''abc'' ''bogus'' ''strict''
       = Inl (LookupError ''unknown encoding: bogus'')"
  by (simp add: unquote_qs_py3_def unquote_qs_py2_def replace_char_def lit_def parse_unquote_py3_def
      parse_unquote_py2_def unquote_to_bytes_def bytes_decode_def lookup_codec_names
      unknown_encoding_def split_on.simps)

lemma unquote_qs_non_ascii_atom:
  "unquote_qs_py3 [233] ''ascii'' ''strict'' = Inr [233]
   \<and> unquote_qs_py2 bytes_decode [CHR 0xE9] ''ascii'' ''strict'' = Inl UnicodeDecodeError
   \<and> unquote_qs_py2 bytes_decode [CHR 0xC3, CHR 0xA9] ''ascii'' ''strict'' = Inl UnicodeDecodeError"
  by (simp add: unquote_qs_py3_def unquote_qs_py2_def replace_char_def parse_unquote_py3_def
      parse_unquote_py2_def unquote_to_bytes_def bytes_decode_def lookup_codec_names
      on_decode_error_def split_on.simps)

text \<open>Two atoms at which the Python 2 definition returns what the decoder of Python 2
  makes of the bytes, and the Python 3 definition raises an error: an encoded surrogate
  under UTF-8, and an encoding that only Python 2 decodes with.\<close>

lemma unquote_qs_encoded_surrogate:
  "unquote_qs_py3 (lit ''%ED%A0%80'') ''utf-8'' ''strict'' = Inl UnicodeDecodeError
   \<and> unquote_qs_py2 decode ''%ED%A0%80'' ''utf-8'' ''strict''
       = decode ''utf-8'' ''strict'' [CHR 0xED, CHR 0xA0, CHR 0x80]"
  by (simp add: unquote_qs_py3_def unquote_qs_py2_def replace_char_def lit_def parse_unquote_py3_def
      parse_unquote_py2_def unquote_run_def unquote_to_bytes_def hextobyte_def hex_val_def
      bytes_decode_def lookup_codec_names on_decode_error_def is_cont_def second3_ok_def
      and_then_def emit_def split_on.simps char_eval)

lemma unquote_qs_rot13:
  "unquote_qs_py3 (lit ''%41'') ''rot13'' ''strict'' = Inl (LookupError ''unknown encoding: rot13'')
   \<and> unquote_qs_py2 decode ''%41'' ''rot13'' ''strict'' = decode ''rot13'' ''strict'' ''A''"
  by (simp add: unquote_qs_py3_def unquote_qs_py2_def replace_char_def lit_def parse_unquote_py3_def
      parse_unquote_py2_def unquote_run_def unquote_to_bytes_def hextobyte_def hex_val_def
      bytes_decode_def lookup_codec_def normalize_encoding_def lower_char_def Let_def
      unknown_encoding_def and_then_def split_on.simps char_eval)

text \<open>
  Claim C5. \<^verbatim>\<open>unquote_qs\<close> replaces every \<^verbatim>\<open>+\<close> by a space and then percent-decodes
  with the given encoding and error handler. The Python 2 definition is the
  specification's reading \<open>spec_unquote_qs\<close> on every byte string, whatever the decoder
  of that runtime; the Python 3 definition is \<^verbatim>\<open>parse_unquote\<close> of the replaced string,
  and is \<open>spec_unquote_qs\<close> with Python 3's decoder on every ASCII atom when the encoding
  is known or the atom has a \<^verbatim>\<open>%\<close>. Both turn \<^verbatim>\<open>a+b%20c\<close> into \<^verbatim>\<open>a b c\<close> (the
  Python 2 definition with every decoder that reads the bytes \<^verbatim>\<open>a b c\<close> as these
  characters under UTF-8), and a \<^verbatim>\<open>+\<close> written as \<^verbatim>\<open>%2B\<close> stays a \<^verbatim>\<open>+\<close>.
\<close>

theorem unquote_qs_plus_then_percent:
  "unquote_qs_py2 decode atom encoding errors = spec_unquote_qs decode atom encoding errors
   \<and> (list_all (\<lambda>c. (of_char c :: nat) < 128) atom
        \<and> (lookup_codec encoding \<noteq> None \<or> CHR ''%'' \<in> set atom)
      \<longrightarrow> unquote_qs_py3 (map of_char atom) encoding errors
            = spec_unquote_qs bytes_decode atom encoding errors)
   \<and> unquote_qs_py3 string encoding errors
       = parse_unquote_py3 (replace_char 43 32 string) encoding errors
   \<and> unquote_qs_py3 (lit ''a+b%20c'') ''utf-8'' ''strict'' = Inr (lit ''a b c'')
   \<and> (decode ''utf-8'' ''strict'' ''a b c'' = Inr (lit ''a b c'')
      \<longrightarrow> unquote_qs_py2 decode ''a+b%20c'' ''utf-8'' ''strict'' = Inr (lit ''a b c''))
   \<and> unquote_qs_py3 (lit ''a%2Bb+c'') ''utf-8'' ''strict'' = Inr (lit ''a+b c'')"
proof -
  have 1: "unquote_qs_py2 decode atom encoding errors = spec_unquote_qs decode atom encoding errors"
    by (rule unquote_qs_py2_spec)
  have 2: "list_all (\<lambda>c. (of_char c :: nat) < 128) atom
        \<and> (lookup_codec encoding \<noteq> None \<or> CHR ''%'' \<in> set atom)
      \<longrightarrow> unquote_qs_py3 (map of_char atom) encoding errors
            = spec_unquote_qs bytes_decode atom encoding errors"
    using unquote_qs_py3_py2 [of atom encoding errors]
      unquote_qs_py2_spec [of bytes_decode atom encoding errors] by simp
  have 3: "unquote_qs_py3 string encoding errors
       = parse_unquote_py3 (replace_char 43 32 string) encoding errors"
    by (simp add: unquote_qs_py3_def)
  have 4: "decode ''utf-8'' ''strict'' ''a b c'' = Inr (lit ''a b c'')
      \<longrightarrow> unquote_qs_py2 decode ''a+b%20c'' ''utf-8'' ''strict'' = Inr (lit ''a b c'')"
    unfolding unquote_qs_py2_example by (rule imp_refl)
  from 1 2 3 unquote_qs_py3_example 4 unquote_qs_py3_escaped_plus show ?thesis by (intro conjI)
qed

theorem unquote_qs_plus_then_percent_witness:
  "list_all (\<lambda>c. (of_char c :: nat) < 128) ''a+b%20c''
   \<and> lookup_codec ''utf-8'' = Some Utf8
   \<and> unquote_qs_py3 (map of_char ''a+b%20c'') ''utf-8'' ''strict''
       = spec_unquote_qs bytes_decode ''a+b%20c'' ''utf-8'' ''strict''
   \<and> spec_unquote_qs bytes_decode ''a+b%20c'' ''utf-8'' ''strict'' = Inr (lit ''a b c'')
   \<and> bytes_decode ''utf-8'' ''strict'' ''a b c'' = Inr (lit ''a b c'')
   \<and> unquote_qs_py2 bytes_decode ''a+b%20c'' ''utf-8'' ''strict'' = Inr (lit ''a b c'')"
proof -
  have a: "list_all (\<lambda>c. (of_char c :: nat) < 128) ''a+b%20c''" by simp
  have b: "lookup_codec ''utf-8'' = Some Utf8" by (rule lookup_codec_names)
  have "lookup_codec ''utf-8'' \<noteq> None" unfolding b by simp
  with a have h: "list_all (\<lambda>c. (of_char c :: nat) < 128) ''a+b%20c''
        \<and> (lookup_codec ''utf-8'' \<noteq> None \<or> CHR ''%'' \<in> set ''a+b%20c'')"
    by blast
  have d: "bytes_decode ''utf-8'' ''strict'' ''a b c'' = Inr (lit ''a b c'')" by (rule utf8_decode_example)
  note t = unquote_qs_plus_then_percent [of bytes_decode "''a+b%20c''" "''utf-8''" "''strict''"]
  from t [THEN conjunct2, THEN conjunct1, THEN mp, OF h]
  have 1: "unquote_qs_py3 (map of_char ''a+b%20c'') ''utf-8'' ''strict''
       = spec_unquote_qs bytes_decode ''a+b%20c'' ''utf-8'' ''strict''" .
  from t [THEN conjunct2, THEN conjunct2, THEN conjunct2, THEN conjunct2, THEN conjunct1,
      THEN mp, OF d]
  have 3: "unquote_qs_py2 bytes_decode ''a+b%20c'' ''utf-8'' ''strict'' = Inr (lit ''a b c'')" .
  from t [THEN conjunct1]
  have "spec_unquote_qs bytes_decode ''a+b%20c'' ''utf-8'' ''strict''
       = unquote_qs_py2 bytes_decode ''a+b%20c'' ''utf-8'' ''strict''"
    by (rule sym)
  also note 3
  finally have 2: "spec_unquote_qs bytes_decode ''a+b%20c'' ''utf-8'' ''strict''
       = Inr (lit ''a b c'')" .
  from a b 1 2 d 3 show ?thesis by (intro conjI)
qed

text \<open>
  Claim C6 says that the two definitions of \<^verbatim>\<open>unquote_qs\<close> return the same for every
  atom, encoding and error handler. They do not: Python 3's \<^verbatim>\<open>unquote\<close> returns a
  string without \<^verbatim>\<open>%\<close> as it is and never looks at the encoding, and it leaves
  characters outside ASCII alone, where the Python 2 definition decodes every byte. At
  the bytes of these examples the decoder of Python 2 does what \<open>bytes_decode\<close> does: no
  codec is called \<^verbatim>\<open>bogus\<close>, and the ASCII codec refuses every byte from 128 on.
\<close>

theorem unquote_qs_variants_counterexample:
  "unquote_qs_py3 (lit ''abc'') ''bogus'' ''strict'' = Inr (lit ''abc'')
   \<and> unquote_qs_py2 bytes_decode ''abc'' ''bogus'' ''strict''
       = Inl (LookupError ''unknown encoding: bogus'')
   \<and> unquote_qs_py3 [233] ''ascii'' ''strict'' = Inr [233]
   \<and> unquote_qs_py2 bytes_decode [CHR 0xE9] ''ascii'' ''strict'' = Inl UnicodeDecodeError
   \<and> unquote_qs_py2 bytes_decode [CHR 0xC3, CHR 0xA9] ''ascii'' ''strict'' = Inl UnicodeDecodeError"
  using unquote_qs_unknown_encoding unquote_qs_non_ascii_atom by (intro conjI) simp_all

text \<open>
  Claim C6, amended. Take an atom of ASCII characters, an encoding that names one of
  the codecs ISO-8859-1, ASCII and UTF-8, and one of the error handlers \<^verbatim>\<open>strict\<close>,
  \<^verbatim>\<open>ignore\<close> and \<^verbatim>\<open>replace\<close>. Both definitions replace, unescape and decode the same
  bytes, so they return the same text or raise the same error whenever the decoder of
  Python 2 makes of these unescaped bytes what the decoder of Python 3 makes of them. The
  two decoders are different programs, and nothing is claimed where they differ: at
  \<^verbatim>\<open>%ED%A0%80\<close> under UTF-8 the Python 3 definition raises \<^verbatim>\<open>UnicodeDecodeError\<close>, while
  Python 2 reads the three bytes as U+D800.
\<close>

theorem unquote_qs_variants_agree_on_ascii:
  assumes ascii: "list_all (\<lambda>c. (of_char c :: nat) < 128) atom"
    and codec: "lookup_codec encoding = Some c"
    and handler: "errors \<in> set [''strict'', ''ignore'', ''replace'']"
    and decoders: "decode encoding errors (percent_decode (replace_char CHR ''+'' CHR '' '' atom))
                   = bytes_decode encoding errors
                       (percent_decode (replace_char CHR ''+'' CHR '' '' atom))"
  shows "unquote_qs_py3 (map of_char atom) encoding errors
         = unquote_qs_py2 decode atom encoding errors"
proof -
  from codec have "lookup_codec encoding \<noteq> None \<or> CHR ''%'' \<in> set atom" by simp
  with ascii have "unquote_qs_py3 (map of_char atom) encoding errors
                   = unquote_qs_py2 bytes_decode atom encoding errors"
    by (rule unquote_qs_py3_py2)
  also have "\<dots> = spec_unquote_qs bytes_decode atom encoding errors"
    by (rule unquote_qs_py2_spec)
  also have "\<dots> = spec_unquote_qs decode atom encoding errors"
    using decoders by (simp add: spec_unquote_qs_def)
  also have "\<dots> = unquote_qs_py2 decode atom encoding errors"
    by (rule unquote_qs_py2_spec [symmetric])
  finally show ?thesis .
qed

theorem unquote_qs_variants_agree_on_ascii_witness:
  "list_all (\<lambda>c. (of_char c :: nat) < 128) ''caf%C3%A9+%FF''
   \<and> lookup_codec ''utf-8'' = Some Utf8
   \<and> ''replace'' \<in> set [''strict'', ''ignore'', ''replace'']
   \<and> percent_decode (replace_char CHR ''+'' CHR '' '' ''caf%C3%A9+%FF'')
       = [CHR ''c'', CHR ''a'', CHR ''f'', CHR 0xC3, CHR 0xA9, CHR '' '', CHR 0xFF]
   \<and> unquote_qs_py3 (map of_char ''caf%C3%A9+%FF'') ''utf-8'' ''replace''
       = unquote_qs_py2 bytes_decode ''caf%C3%A9+%FF'' ''utf-8'' ''replace''
   \<and> unquote_qs_py2 bytes_decode ''caf%C3%A9+%FF'' ''utf-8'' ''replace''
       = Inr [99, 97, 102, 233, 32, 65533]"
proof -
  have a: "list_all (\<lambda>c. (of_char c :: nat) < 128) ''caf%C3%A9+%FF''" by simp
  have l: "lookup_codec ''utf-8'' = Some Utf8" by (rule lookup_codec_names)
  have h: "''replace'' \<in> set [''strict'', ''ignore'', ''replace'']" by simp
  have p: "percent_decode (replace_char CHR ''+'' CHR '' '' ''caf%C3%A9+%FF'')
       = [CHR ''c'', CHR ''a'', CHR ''f'', CHR 0xC3, CHR 0xA9, CHR '' '', CHR 0xFF]"
    by (simp add: replace_char_def hextobyte_def hex_val_def char_eval)
  have c: "unquote_qs_py2 bytes_decode ''caf%C3%A9+%FF'' ''utf-8'' ''replace''
       = Inr [99, 97, 102, 233, 32, 65533]"
    by (simp add: unquote_qs_py2_def replace_char_def parse_unquote_py2_def
      unquote_to_bytes_def hextobyte_def hex_val_def bytes_decode_def lookup_codec_names
      emit_def on_decode_error_def is_cont_def split_on.simps char_eval)
  from a l h p unquote_qs_variants_agree_on_ascii [where decode = bytes_decode, OF a l h refl] c
  show ?thesis by (intro conjI)
qed

section \<open>Random identifiers\<close>

lemma hex_digit_cases:
  fixes d :: nat
  assumes "d < 16"
  shows "d \<in> set [15, 14, 13, 12, 11, 10, 9, 8, 7, 6, 5, 4, 3, 2, 1, 0]"
  using assms by simp arith

lemma hex_val_hex_digit:
  assumes "d < 16"
  shows "hex_val (of_char (hex_digit d)) = Some d \<and> lower_hex (of_char (hex_digit d))"
  using hex_digit_cases [OF assms]
  by (auto simp: hex_digit_def hex_val_def lower_hex_def)

lemma hextobyte_hexlify_char:
  "hextobyte [hex_digit (of_char c div 16), hex_digit (of_char c)] = Some c"
proof -
  have 1: "(of_char c :: nat) div 16 < 16"
    using nat_of_char_less_256 [of c] by linarith
  have 2: "hex_digit (of_char c) = hex_digit (of_char c mod 16)" by (simp add: hex_digit_def)
  have 3: "(of_char c :: nat) mod 16 < 16" by simp
  have 4: "(of_char c :: nat) div 16 * 16 + of_char c mod 16 = of_char c" by simp
  show ?thesis
    unfolding 2 hextobyte_def
    using hex_val_hex_digit [OF 1] hex_val_hex_digit [OF 3] by (simp add: 4)
qed

lemma length_hexlify: "length (hexlify b) = 2 * length b"
  by (induction b) (simp_all add: hexlify_def)

lemma hexlify_lower_hex: "c \<in> set (hexlify b) \<Longrightarrow> lower_hex (of_char c)"
proof -
  have h: "\<And>n. lower_hex (of_char (hex_digit n))"
  proof -
    fix n :: nat
    have "n mod 16 < 16" by simp
    from hex_val_hex_digit [OF this] show "lower_hex (of_char (hex_digit n))"
      by (simp add: hex_digit_def)
  qed
  assume "c \<in> set (hexlify b)"
  then show ?thesis by (auto simp: hexlify_def h)
qed

lemma hexlify_nth:
  "i < length b \<Longrightarrow> hextobyte [hexlify b ! (2 * i), hexlify b ! (2 * i + 1)] = Some (b ! i)"
proof (induction b arbitrary: i)
  case Nil
  then show ?case by simp
next
  case (Cons c b)
  show ?case
  proof (cases i)
    case 0
    then show ?thesis using hextobyte_hexlify_char [of c] by (simp add: hexlify_def)
  next
    case (Suc j)
    with Cons.prems have "j < length b" by simp
    from Cons.IH [OF this] Suc show ?thesis by (simp add: hexlify_def)
  qed
qed

lemma unhexlify_hexlify: "unhexlify (hexlify b) = Some b"
proof (induction b)
  case Nil
  then show ?case by (simp add: hexlify_def)
next
  case (Cons c b)
  then have "unhexlify (hexlify b) = Some b" .
  then show ?case using hextobyte_hexlify_char [of c] by (simp add: hexlify_def)
qed

text \<open>
  Claim C9. When the entropy source hands out 20 bytes, \<^verbatim>\<open>random20\<close> returns a text
  of 40 characters, each a digit or a letter from \<^verbatim>\<open>a\<close> to \<^verbatim>\<open>f\<close>: the hexadecimal
  encoding of the 20 bytes, which \<^verbatim>\<open>unhexlify\<close> reads back as those bytes.
\<close>

theorem random20_is_hex_of_entropy:
  assumes "length (urandom 20) = 20"
  shows "\<exists>t. random20 rt urandom = Inr (TextV t)
            \<and> length t = 40
            \<and> list_all lower_hex t
            \<and> t = map of_char (hexlify (urandom 20))
            \<and> unhexlify (hexlify (urandom 20)) = Some (urandom 20)"
proof -
  let ?h = "hexlify (urandom 20)"
  have lh: "\<forall>c \<in> set ?h. lower_hex (of_char c)"
    using hexlify_lower_hex [of _ "urandom 20"] by blast
  have as: "\<forall>c \<in> set ?h. (of_char c :: nat) < 128"
  proof
    fix c assume "c \<in> set ?h"
    then have "lower_hex (of_char c)" by (rule hexlify_lower_hex)
    then show "(of_char c :: nat) < 128" unfolding lower_hex_def by linarith
  qed
  have r: "random20 rt urandom = Inr (TextV (map of_char ?h))"
    by (simp add: random20_def bytes_decode_def lookup_codec_names and_then_def
        ascii_decode_ascii [OF as])
  have l: "length (map of_char ?h :: nat list) = 40" using assms by (simp add: length_hexlify)
  have a: "list_all lower_hex (map of_char ?h)" using lh by (simp add: list_all_iff)
  from r l a unhexlify_hexlify [of "urandom 20"] show ?thesis by blast
qed

theorem random20_is_hex_of_entropy_witness:
  "length (take 20 ''0123456789:;<=>?@ABCDEFGHIJ'') = 20
   \<and> (\<exists>t. random20 PY3 (\<lambda>n. take n ''0123456789:;<=>?@ABCDEFGHIJ'') = Inr (TextV t)
          \<and> length t = 40
          \<and> list_all lower_hex t
          \<and> t = map of_char (hexlify (take 20 ''0123456789:;<=>?@ABCDEFGHIJ''))
          \<and> unhexlify (hexlify (take 20 ''0123456789:;<=>?@ABCDEFGHIJ''))
              = Some (take 20 ''0123456789:;<=>?@ABCDEFGHIJ''))"
proof -
  have h: "length (take 20 ''0123456789:;<=>?@ABCDEFGHIJ'') = 20" by simp
  from h random20_is_hex_of_entropy [of "\<lambda>n. take n ''0123456789:;<=>?@ABCDEFGHIJ''" PY3, OF h]
  show ?thesis by (rule conjI)
qed

section \<open>The MAC address of the host\<close>

lemma of_char_lower_char:
  "(of_char (lower_char c) :: nat) =
     (if 65 \<le> (of_char c :: nat) \<and> (of_char c :: nat) \<le> 90 then of_char c + 32 else of_char c)"
  by (simp add: lower_char_def)

lemma lower_char_colon: "lower_char c = CHR '':'' \<longleftrightarrow> c = CHR '':''"
proof
  assume "lower_char c = CHR '':''"
  then have "(of_char (lower_char c) :: nat) = of_char CHR '':''" by simp
  then have "(of_char c :: nat) = 58" by (simp add: of_char_lower_char split: if_splits)
  then have "(of_char c :: nat) = of_char CHR '':''" by simp
  then show "c = CHR '':''" by (simp only: of_char_eq_iff)
next
  assume "c = CHR '':''"
  then show "lower_char c = CHR '':''" by (simp add: lower_char_def)
qed

lemma colon_in_lower: "CHR '':'' \<in> set (lower s) \<longleftrightarrow> CHR '':'' \<in> set s"
  unfolding lower_def set_map image_iff by (metis lower_char_colon)

declare get_mac_loop.simps [simp del]

lemma get_mac_loop_queries:
  "get_mac_loop label count mac h = (count', mac', h') \<Longrightarrow>
     count \<le> count' \<and> count' \<le> max count 360 \<and> queries h' = queries h + (count' - count)"
proof (induction label count mac h arbitrary: count' mac' h' rule: get_mac_loop.induct)
  case (1 label count mac h)
  show ?case
  proof (cases "CHR '':'' \<notin> set mac \<and> count < 360")
    case True
    let ?h = "(log_msg ''Waiting for mac address...'' LOGNOTICE h)
                \<lparr>queries := queries h + 1, slept := slept h + 1000\<rparr>"
    from True "1.prems"
    have "get_mac_loop label (count + 1) (lower (label (queries h))) ?h = (count', mac', h')"
      by (simp add: get_mac_loop.simps [of label count mac h])
    from "1.IH" [OF True this] True show ?thesis by (auto simp: log_msg_def)
  next
    case False
    with "1.prems" show ?thesis by (auto simp: get_mac_loop.simps [of label count mac h])
  qed
qed

lemma get_mac_loop_stop:
  "CHR '':'' \<in> set mac \<Longrightarrow> get_mac_loop label count mac h = (count, mac, h)"
  by (simp add: get_mac_loop.simps [of label count mac h])

lemma get_mac_loop_no_colon:
  "\<forall>k. CHR '':'' \<notin> set (label k) \<Longrightarrow> CHR '':'' \<notin> set mac \<Longrightarrow> count < 360 \<Longrightarrow>
   fst (get_mac_loop label count mac h) = 360
   \<and> fst (snd (get_mac_loop label count mac h)) = lower (label (queries h + 359 - count))"
proof (induction label count mac h rule: get_mac_loop.induct)
  case (1 label count mac h)
  let ?h = "(log_msg ''Waiting for mac address...'' LOGNOTICE h)
                \<lparr>queries := queries h + 1, slept := slept h + 1000\<rparr>"
  let ?m = "lower (label (queries h))"
  have g: "CHR '':'' \<notin> set mac \<and> count < 360" using "1.prems" by simp
  have m: "CHR '':'' \<notin> set ?m" using "1.prems" by (simp add: colon_in_lower)
  have step: "get_mac_loop label count mac h = get_mac_loop label (count + 1) ?m ?h"
    using g by (simp add: get_mac_loop.simps [of label count mac h])
  show ?case
  proof (cases "count + 1 < 360")
    case True
    from "1.IH" [OF g "1.prems"(1) m True] show ?thesis
      unfolding step using True by (simp add: log_msg_def add_ac)
  next
    case False
    with g have c: "count = 359" by simp
    show ?thesis using step unfolding c by (simp add: get_mac_loop.simps [of label 360])
  qed
qed

lemma get_mac_loop_first_colon:
  "CHR '':'' \<notin> set mac \<Longrightarrow> count + k < 360 \<Longrightarrow>
   CHR '':'' \<in> set (label (queries h + k)) \<Longrightarrow>
   \<forall>j<k. CHR '':'' \<notin> set (label (queries h + j)) \<Longrightarrow>
   fst (snd (get_mac_loop label count mac h)) = lower (label (queries h + k))"
proof (induction k arbitrary: count mac h)
  case 0
  let ?h = "(log_msg ''Waiting for mac address...'' LOGNOTICE h)
                \<lparr>queries := queries h + 1, slept := slept h + 1000\<rparr>"
  let ?m = "lower (label (queries h))"
  have step: "get_mac_loop label count mac h = get_mac_loop label (count + 1) ?m ?h"
    using 0 by (simp add: get_mac_loop.simps [of label count mac h])
  have "CHR '':'' \<in> set ?m" using 0 by (simp add: colon_in_lower)
  then show ?case
    unfolding step by (simp add: get_mac_loop_stop)
next
  case (Suc k)
  let ?h = "(log_msg ''Waiting for mac address...'' LOGNOTICE h)
                \<lparr>queries := queries h + 1, slept := slept h + 1000\<rparr>"
  let ?m = "lower (label (queries h))"
  have step: "get_mac_loop label count mac h = get_mac_loop label (count + 1) ?m ?h"
    using Suc.prems by (simp add: get_mac_loop.simps [of label count mac h])
  have q: "queries ?h = queries h + 1" by (simp add: log_msg_def)
  have "CHR '':'' \<notin> set (label (queries h + 0))" using Suc.prems(4) by blast
  then have m: "CHR '':'' \<notin> set ?m" by (simp add: colon_in_lower)
  have c: "count + 1 + k < 360" using Suc.prems(2) by simp
  have l: "CHR '':'' \<in> set (label (queries ?h + k))" using Suc.prems(3) by (simp add: q)
  have n: "\<forall>j<k. CHR '':'' \<notin> set (label (queries ?h + j))"
  proof (intro allI impI)
    fix j assume "j < k"
    then have "Suc j < Suc k" by simp
    with Suc.prems(4) have "CHR '':'' \<notin> set (label (queries h + Suc j))" by blast
    then show "CHR '':'' \<notin> set (label (queries ?h + j))" by (simp add: q)
  qed
  from Suc.IH [OF m c l n] show ?case unfolding step by (simp add: q)
qed

text \<open>\<^verbatim>\<open>get_mac\<close> asks at most 360 times, and returns the first answer with a colon,
  in lower case, when one of the first 360 answers has one.\<close>

lemma get_mac_at_most_360_queries:
  "queries (snd (get_mac label h0)) \<le> queries h0 + 360"
proof -
  obtain count mac h where r: "get_mac_loop label 0 [] h0 = (count, mac, h)"
    by (cases "get_mac_loop label 0 [] h0") auto
  from get_mac_loop_queries [OF r] show ?thesis
    by (simp add: get_mac_def r log_msg_def)
qed

lemma get_mac_detected:
  assumes "k < 360" "CHR '':'' \<in> set (label (queries h0 + k))"
    "\<forall>j<k. CHR '':'' \<notin> set (label (queries h0 + j))"
  shows "fst (get_mac label h0) = lower (label (queries h0 + k))"
proof -
  have "fst (snd (get_mac_loop label 0 [] h0)) = lower (label (queries h0 + k))"
    using assms by (intro get_mac_loop_first_colon) simp_all
  then show ?thesis by (cases "get_mac_loop label 0 [] h0") (simp add: get_mac_def)
qed

text \<open>
  Claim C8 says that \<^verbatim>\<open>get_mac\<close> returns the empty string when no address was
  detected in 360 attempts. The loop leaves the last answer in \<^verbatim>\<open>mac\<close>: a host that
  answers \<^verbatim>\<open>Busy\<close> every time makes \<^verbatim>\<open>get_mac\<close> ask 360 times, log the address
  \<^verbatim>\<open>busy\<close> as detected and return it.
\<close>

theorem get_mac_timeout_returns_last_label:
  "fst (get_mac (\<lambda>k. ''Busy'') host0) = ''busy''
   \<and> queries (snd (get_mac (\<lambda>k. ''Busy'') host0)) = 360
   \<and> last (logged (snd (get_mac (\<lambda>k. ''Busy'') host0)))
       = (LOGNOTICE, ''plugin.audio.squeezebox --> Detected Mac-Address: busy'')"
proof -
  obtain count mac h where r: "get_mac_loop (\<lambda>k. ''Busy'') 0 [] host0 = (count, mac, h)"
    by (cases "get_mac_loop (\<lambda>k. ''Busy'') 0 [] host0") auto
  have "fst (get_mac_loop (\<lambda>k. ''Busy'') 0 [] host0) = 360
        \<and> fst (snd (get_mac_loop (\<lambda>k. ''Busy'') 0 [] host0)) = lower ''Busy''"
    by (rule get_mac_loop_no_colon) simp_all
  then have c: "count = 360" and mac: "mac = ''busy''"
    unfolding r by (simp_all add: lower_def lower_char_def char_eval)
  from get_mac_loop_queries [OF r] have q: "queries h = queries host0 + count"
    by simp
  from c q mac r show ?thesis
    by (simp add: get_mac_def host0_def log_msg_def ADDON_ID_def)
qed

end
